theory Spec2Isabelle
  imports Complex_Main
begin

unbundle bit_operations_syntax

section \<open>Python strings and lists\<close>

text \<open>
  Python strings are modelled as \<open>string\<close> (a list of characters). The characters
  the source tests for are named once here.
\<close>

abbreviation NL :: char where "NL \<equiv> CHR 0x0A"
abbreviation BSL :: char where "BSL \<equiv> CHR 0x5C"
abbreviation TICK :: char where "TICK \<equiv> CHR 0x60"
abbreviation PIPE :: char where "PIPE \<equiv> CHR 0x7C"
abbreviation SPC :: char where "SPC \<equiv> CHR 0x20"

datatype py_error = IndexError | KeyError | ValueError | TypeError | SystemExit nat

text \<open>What a Python method returns when the claim is about the kind of value.\<close>

datatype retval = PyNone | PyBool bool

text \<open>\<open>str.isspace\<close> on one character, for the code points below 256.\<close>

definition py_isspace :: "char \<Rightarrow> bool" where
  "py_isspace c = (let n = of_char c :: nat in
     (9 \<le> n \<and> n \<le> 13) \<or> (28 \<le> n \<and> n \<le> 32) \<or> n = 133 \<or> n = 160)"

text \<open>\<open>s.lstrip(chars)\<close>, \<open>s.rstrip(chars)\<close> and \<open>s.strip(chars)\<close>, with the
  set of stripped characters as a predicate; \<open>s.strip()\<close> strips whitespace.\<close>

definition lstrip_by :: "(char \<Rightarrow> bool) \<Rightarrow> string \<Rightarrow> string" where
  "lstrip_by P s = dropWhile P s"

definition rstrip_by :: "(char \<Rightarrow> bool) \<Rightarrow> string \<Rightarrow> string" where
  "rstrip_by P s = rev (dropWhile P (rev s))"

definition strip_by :: "(char \<Rightarrow> bool) \<Rightarrow> string \<Rightarrow> string" where
  "strip_by P s = rstrip_by P (lstrip_by P s)"

definition strip :: "string \<Rightarrow> string" where
  "strip s = strip_by py_isspace s"

definition strip_spaces :: "string \<Rightarrow> string" where
  "strip_spaces s = strip_by (\<lambda>c. c = SPC) s"

text \<open>\<open>s[i:j]\<close> and \<open>s[i:]\<close> for indices that are not negative.\<close>

definition slice :: "'a list \<Rightarrow> nat \<Rightarrow> nat \<Rightarrow> 'a list" where
  "slice s i j = drop i (take j s)"

definition startswith :: "string \<Rightarrow> string \<Rightarrow> bool" where
  "startswith s p = (take (length p) s = p)"

definition endswith :: "string \<Rightarrow> string \<Rightarrow> bool" where
  "endswith s p = (length p \<le> length s \<and> drop (length s - length p) s = p)"

text \<open>\<open>s.split(d)\<close> for a one-character separator: never the empty list.\<close>

fun split_on :: "char \<Rightarrow> string \<Rightarrow> string list" where
  "split_on d [] = [[]]"
| "split_on d (c # cs) =
     (if c = d then [] # split_on d cs
      else (case split_on d cs of
              w # ws \<Rightarrow> (c # w) # ws
            | [] \<Rightarrow> [[c]]))"

section \<open>Element trees\<close>

text \<open>
  An \<open>xml.etree.ElementTree.Element\<close>: tag, attributes in insertion order, optional
  text, children, optional tail.
\<close>

datatype element =
  Element (el_tag: string) (el_attrib: "(string \<times> string) list")
          (el_text: "string option") (el_children: "element list")
          (el_tail: "string option")

text \<open>\<open>Element(tag)\<close>, \<open>el.set(key, value)\<close> and appending a child, as
  \<open>SubElement(parent, tag)\<close> does to its parent. A Python dict is an association
  list in insertion order; \<open>dict_set\<close> is \<open>d[k] = v\<close>.\<close>

definition new_element :: "string \<Rightarrow> element" where
  "new_element t = Element t [] None [] None"

fun dict_set :: "('k \<times> 'v) list \<Rightarrow> 'k \<Rightarrow> 'v \<Rightarrow> ('k \<times> 'v) list" where
  "dict_set [] k v = [(k, v)]"
| "dict_set ((k', v') # kvs) k v =
     (if k' = k then (k, v) # kvs else (k', v') # dict_set kvs k v)"

definition el_set :: "element \<Rightarrow> string \<Rightarrow> string \<Rightarrow> element" where
  "el_set e k v = Element (el_tag e) (dict_set (el_attrib e) k v) (el_text e)
                          (el_children e) (el_tail e)"

definition set_text :: "element \<Rightarrow> string \<Rightarrow> element" where
  "set_text e t = Element (el_tag e) (el_attrib e) (Some t) (el_children e) (el_tail e)"

definition append_child :: "element \<Rightarrow> element \<Rightarrow> element" where
  "append_child p c = Element (el_tag p) (el_attrib p) (el_text p) (el_children p @ [c])
                              (el_tail p)"

section \<open>The tables extension (markdown/extensions/tables.py)\<close>

text \<open>
  \<open>PIPE_NONE\<close>, \<open>PIPE_LEFT\<close> and \<open>PIPE_RIGHT\<close> are the bits of
  \<open>TableProcessor.border\<close>; \<open>separator\<close> is the split separator row that
  \<open>test\<close> keeps for \<open>run\<close>; \<open>use_align_attribute\<close> is the one configuration
  option. The constructor sets \<open>border = False\<close> (0) and \<open>separator = ''\<close> (nothing
  to iterate over).
\<close>

definition PIPE_NONE :: nat where "PIPE_NONE = 0"
definition PIPE_LEFT :: nat where "PIPE_LEFT = 1"
definition PIPE_RIGHT :: nat where "PIPE_RIGHT = 2"

record table_processor =
  border :: nat
  separator :: "string list"
  use_align_attribute :: bool

definition TableProcessor_init :: "bool \<Rightarrow> table_processor" where
  "TableProcessor_init cfg = \<lparr>border = 0, separator = [], use_align_attribute = cfg\<rparr>"

text \<open>
  \<open>RE_END_BORDER = (?<!\\)(?:\\\\)*\|$\<close>. The dollar matches at the end of the
  string and before a newline that ends it. A match is the pipe in front of that place
  together with the whole run of backslashes before the pipe, which the look-behind and
  the pairs force to be of even length. The result is the start and the end of the
  match.
\<close>

definition RE_END_BORDER_at_end :: "string \<Rightarrow> (nat \<times> nat) option" where
  "RE_END_BORDER_at_end s =
     (case rev s of
        [] \<Rightarrow> None
      | c # front \<Rightarrow>
          if c = PIPE then
            (let r = length (takeWhile (\<lambda>x. x = BSL) front) in
             if even r then Some (length s - 1 - r, length s) else None)
          else None)"

definition RE_END_BORDER_search :: "string \<Rightarrow> (nat \<times> nat) option" where
  "RE_END_BORDER_search s =
     (if s \<noteq> [] \<and> last s = NL then RE_END_BORDER_at_end (butlast s)
      else RE_END_BORDER_at_end s)"

definition RE_END_BORDER_sub :: "string \<Rightarrow> string" where
  "RE_END_BORDER_sub s =
     (case RE_END_BORDER_search s of
        None \<Rightarrow> s
      | Some (a, b) \<Rightarrow> take a s @ drop b s)"

text \<open>
  \<open>RE_CODE_PIPES = (?:(\\\\)|(\\`+)|(`+)|(\\\|)|(\|))\<close> under \<open>finditer\<close>: the
  scan goes left to right, tries the alternatives in their order at each place and goes
  on after a match. A \<open>Tic\<close> carries what the loop body stores for groups 2 and 3: the
  entry of \<open>tics\<close> and the triple of \<open>tic_points\<close>; a \<open>Pipe\<close> carries the entry of
  \<open>pipes\<close> (group 5). Groups 1 and 4 store nothing.
\<close>

datatype code_pipe = Tic nat nat nat nat | Pipe nat

function RE_CODE_PIPES_finditer :: "nat \<Rightarrow> string \<Rightarrow> code_pipe list" where
  "RE_CODE_PIPES_finditer i [] = []"
| "RE_CODE_PIPES_finditer i (c # cs) =
     (if c = BSL then
        (case cs of
           [] \<Rightarrow> []
         | d # ds \<Rightarrow>
             if d = BSL then RE_CODE_PIPES_finditer (i + 2) ds
             else if d = TICK then
               (let n = length (takeWhile (\<lambda>x. x = TICK) cs) in
                Tic n i (i + n) 1 #
                  RE_CODE_PIPES_finditer (i + 1 + n) (dropWhile (\<lambda>x. x = TICK) cs))
             else if d = PIPE then RE_CODE_PIPES_finditer (i + 2) ds
             else RE_CODE_PIPES_finditer (i + 1) cs)
      else if c = TICK then
        (let n = Suc (length (takeWhile (\<lambda>x. x = TICK) cs)) in
         Tic n i (i + n - 1) 0 #
           RE_CODE_PIPES_finditer (i + n) (dropWhile (\<lambda>x. x = TICK) cs))
      else if c = PIPE then Pipe i # RE_CODE_PIPES_finditer (i + 1) cs
      else RE_CODE_PIPES_finditer (i + 1) cs)"
  by pat_completeness auto
termination
  by (relation "measure (\<lambda>(i, s). length s)")
     (auto intro: le_less_trans [OF length_dropWhile_le])

text \<open>The entries of \<open>tics\<close> with their \<open>tic_points\<close>, and the entries of \<open>pipes\<close>.\<close>

fun tics_of :: "code_pipe list \<Rightarrow> (nat \<times> nat \<times> nat \<times> nat) list" where
  "tics_of [] = []"
| "tics_of (Tic n a b e # ms) = (n, a, b, e) # tics_of ms"
| "tics_of (Pipe i # ms) = tics_of ms"

fun pipes_of :: "code_pipe list \<Rightarrow> nat list" where
  "pipes_of [] = []"
| "pipes_of (Tic n a b e # ms) = pipes_of ms"
| "pipes_of (Pipe i # ms) = i # pipes_of ms"

text \<open>\<open>xs.index(v)\<close>: \<open>None\<close> stands for the \<open>ValueError\<close> the loop catches.\<close>

fun index_of :: "'a \<Rightarrow> 'a list \<Rightarrow> nat option" where
  "index_of v [] = None"
| "index_of v (x # xs) = (if x = v then Some 0 else map_option Suc (index_of v xs))"

text \<open>
  The \<open>while pos < tic_len\<close> loop on the tics from \<open>pos\<close> on: a group of size 0 after
  the escape, or one without a later group of its size, is skipped; otherwise the region
  from its start to the end of the closing group is stored and the loop goes on behind
  the closing group.
\<close>

function tic_regions :: "(nat \<times> nat \<times> nat \<times> nat) list \<Rightarrow> (nat \<times> nat) list" where
  "tic_regions [] = []"
| "tic_regions ((n, a, b, e) # rest) =
     (let tic_size = n - e in
      if tic_size = 0 then tic_regions rest
      else (case index_of tic_size (map fst rest) of
              None \<Rightarrow> tic_regions rest
            | Some k \<Rightarrow> (a, fst (snd (snd (rest ! k)))) # tic_regions (drop (Suc k) rest)))"
  by pat_completeness auto
termination
  by (relation "measure length") auto

text \<open>The inner \<open>for region in tic_region\<close> loop: is the pipe thrown out?\<close>

fun throw_out :: "nat \<Rightarrow> (nat \<times> nat) list \<Rightarrow> bool" where
  "throw_out pipe [] = False"
| "throw_out pipe ((a, b) # regions) =
     (if pipe < a then False
      else if a \<le> pipe \<and> pipe \<le> b then True
      else throw_out pipe regions)"

text \<open>The last loop of \<open>_split\<close>: the row cut at the good pipes.\<close>

fun split_at_pipes :: "string \<Rightarrow> nat \<Rightarrow> nat list \<Rightarrow> string list" where
  "split_at_pipes row pos [] = [drop pos row]"
| "split_at_pipes row pos (pipe # pipes) =
     slice row pos pipe # split_at_pipes row (pipe + 1) pipes"

definition TableProcessor_split :: "string \<Rightarrow> string list" where
  "TableProcessor_split row =
     (let ms = RE_CODE_PIPES_finditer 0 row;
          tic_region = tic_regions (tics_of ms);
          good_pipes = filter (\<lambda>pipe. \<not> throw_out pipe tic_region) (pipes_of ms)
      in split_at_pipes row 0 good_pipes)"

definition TableProcessor_split_row :: "table_processor \<Rightarrow> string \<Rightarrow> string list" where
  "TableProcessor_split_row self row =
     (if border self \<noteq> 0 then
        TableProcessor_split
          (RE_END_BORDER_sub (if startswith row [PIPE] then drop 1 row else row))
      else TableProcessor_split row)"

text \<open>
  \<open>_build_row\<close>: one cell per entry of \<open>align\<close>; the text of cell \<open>i\<close> is
  \<open>cells[i].strip(' ')\<close>, or the empty string where that raises \<open>IndexError\<close>.
\<close>

fun build_cells ::
  "table_processor \<Rightarrow> string \<Rightarrow> string list \<Rightarrow> nat \<Rightarrow> string option list \<Rightarrow> element list" where
  "build_cells self t cells i [] = []"
| "build_cells self t cells i (a # align) =
     (let c = set_text (new_element t)
                (if i < length cells then strip_spaces (cells ! i) else []);
          c' = (case a of
                  None \<Rightarrow> c
                | Some v \<Rightarrow>
                    if v = [] then c
                    else if use_align_attribute self then el_set c ''align'' v
                    else el_set c ''style'' (''text-align: '' @ v @ '';''))
      in c' # build_cells self t cells (Suc i) align)"

definition TableProcessor_build_row ::
  "table_processor \<Rightarrow> string \<Rightarrow> element \<Rightarrow> string option list \<Rightarrow> element" where
  "TableProcessor_build_row self row parent align =
     (let t = (if el_tag parent = ''thead'' then ''th'' else ''td'');
          cells = TableProcessor_split_row self row
      in append_child parent
           (Element ''tr'' [] None (build_cells self t cells 0 align) None))"

text \<open>\<open>_build_empty_row\<close>: the \<open>while count\<close> loop adds one \<open>td\<close> per column.\<close>

fun empty_cells :: "nat \<Rightarrow> element \<Rightarrow> element" where
  "empty_cells 0 tr = tr"
| "empty_cells (Suc count) tr = empty_cells count (append_child tr (new_element ''td''))"

definition TableProcessor_build_empty_row :: "element \<Rightarrow> string option list \<Rightarrow> element" where
  "TableProcessor_build_empty_row parent align =
     append_child parent (empty_cells (length align) (new_element ''tr''))"

text \<open>\<open>test\<close>: the answer and the processor with the border and separator it keeps.\<close>

fun border_loop :: "bool \<Rightarrow> string list \<Rightarrow> bool" where
  "border_loop is_table [] = is_table"
| "border_loop is_table (r # rows) =
     (let t = startswith r [PIPE];
          t' = (if \<not> t then RE_END_BORDER_search r \<noteq> None else t)
      in if \<not> t' then t' else border_loop t' rows)"

definition TableProcessor_test :: "table_processor \<Rightarrow> string \<Rightarrow> bool \<times> table_processor" where
  "TableProcessor_test self block =
     (let rows = map strip_spaces (split_on NL block) in
      if length rows > 1 then
        (let header0 = rows ! 0;
             b1 = (if startswith header0 [PIPE] then PIPE_NONE OR PIPE_LEFT else PIPE_NONE);
             b2 = (if RE_END_BORDER_search header0 \<noteq> None then b1 OR PIPE_RIGHT else b1);
             self1 = self\<lparr>border := b2\<rparr>;
             row0_len = length (TableProcessor_split_row self1 header0);
             is_table = (row0_len > 1);
             is_table' = (if \<not> is_table \<and> row0_len = 1 \<and> b2 \<noteq> 0
                          then border_loop is_table (drop 1 rows) else is_table)
         in if is_table' then
              (let row = TableProcessor_split_row self1 (rows ! 1);
                   ok = (length row = row0_len \<and> set (concat row) \<subseteq> set ''|:- '')
               in (ok, if ok then self1\<lparr>separator := row\<rparr> else self1))
            else (False, self1))
      else (False, self))"

text \<open>\<open>run\<close>: the alignment of each column of the separator, then the table.\<close>

definition align_of :: "string \<Rightarrow> string option" where
  "align_of c0 =
     (let c = strip_spaces c0 in
      if startswith c '':'' \<and> endswith c '':'' then Some ''center''
      else if startswith c '':'' then Some ''left''
      else if endswith c '':'' then Some ''right''
      else None)"

definition TableProcessor_rows :: "string list \<Rightarrow> string list" where
  "TableProcessor_rows block = (if length block < 3 then [] else drop 2 block)"

definition TableProcessor_run ::
  "table_processor \<Rightarrow> element \<Rightarrow> string list \<Rightarrow> py_error + (retval \<times> element \<times> string list)" where
  "TableProcessor_run self parent blocks =
     (case blocks of
        [] \<Rightarrow> Inl IndexError
      | b # blocks' \<Rightarrow>
          (let block = split_on NL b;
               header = strip_spaces (hd block);
               rows = TableProcessor_rows block;
               align = map align_of (separator self);
               thead = TableProcessor_build_row self header (new_element ''thead'') align;
               tbody = (if length rows = 0
                        then TableProcessor_build_empty_row (new_element ''tbody'') align
                        else foldl (\<lambda>tb row. TableProcessor_build_row self (strip_spaces row) tb align)
                               (new_element ''tbody'') rows)
           in Inr (PyNone,
                   append_child parent (Element ''table'' [] None [thead, tbody] None),
                   blocks')))"

text \<open>An example: the processor as \<open>test\<close> leaves it on a bordered table with two
  columns, and a block whose body rows have three cells and one cell.\<close>

definition ex_self :: table_processor where
  "ex_self = \<lparr>border = 3, separator = [''-'', ''-''], use_align_attribute = False\<rparr>"

definition ex_block :: string where
  "ex_block = ''|a|b|'' @ [NL] @ ''|-|-|'' @ [NL] @ ''|1|2|3|'' @ [NL] @ ''|x|''"

definition ex_table_out :: element where
  "ex_table_out =
      Element ''div'' [] None
       [Element ''table'' [] None
         [Element ''thead'' [] None
           [Element ''tr'' [] None
             [Element ''th'' [] (Some ''a'') [] None,
              Element ''th'' [] (Some ''b'') [] None]
             None]
           None,
          Element ''tbody'' [] None
           [Element ''tr'' [] None
             [Element ''td'' [] (Some ''1'') [] None,
              Element ''td'' [] (Some ''2'') [] None]
             None,
            Element ''tr'' [] None
             [Element ''td'' [] (Some ''x'') [] None,
              Element ''td'' [] (Some []) [] None]
             None]
           None]
         None]
       None"


section \<open>The raw HTML extractor (markdown/htmlparser.py)\<close>

text \<open>
  The state of an \<open>HTMLExtractor\<close>. \<open>rawdata\<close>, \<open>lineno\<close>, \<open>offset\<close> and
  \<open>cdata_elem\<close> are the fields of the standard library's parser that the class reads:
  while a handler runs, \<open>lineno\<close> (from 1) and \<open>offset\<close> (the column) are the place
  where the construct being handled starts. \<open>starttag_text\<close> is the private
  \<open>__starttag_text\<close> that \<open>parse_starttag\<close> sets before it calls a handler.
  \<open>rawHtmlBlocks\<close> is the stash \<open>md.htmlStash\<close>.
\<close>

record extractor =
  rawdata :: string
  lineno :: nat
  offset :: nat
  starttag_text :: string
  cdata_elem :: "string option"
  empty_tags :: "string list"
  inraw :: bool
  intail :: bool
  stack :: "string list"
  cache :: "string list"
  cleandoc :: "string list"
  rawHtmlBlocks :: "string list"

text \<open>\<open>__init__\<close> and \<open>reset\<close>, with the text that \<open>feed\<close> stores.\<close>

definition HTMLExtractor_init :: "string \<Rightarrow> extractor" where
  "HTMLExtractor_init text =
     \<lparr>rawdata = text, lineno = 1, offset = 0, starttag_text = [], cdata_elem = None,
      empty_tags = [''hr''], inraw = False, intail = False, stack = [], cache = [],
      cleandoc = [], rawHtmlBlocks = []\<rparr>"

text \<open>
  Modelled from the spec: \<open>HtmlStash.store\<close> (markdown/util.py is not among the
  sources). The placeholder is a sentinel character, \<open>wzxhzdk:\<close>, the decimal index
  and the sentinel again; the index is the number of fragments stored before.
\<close>

definition digit_char :: "nat \<Rightarrow> char" where
  "digit_char d = char_of (48 + d)"

function decimal :: "nat \<Rightarrow> string" where
  "decimal n = (if n < 10 then [digit_char n] else decimal (n div 10) @ [digit_char (n mod 10)])"
  by pat_completeness auto
termination
  by (relation "measure id") auto

definition get_placeholder :: "nat \<Rightarrow> string" where
  "get_placeholder k = [CHR 0x02] @ ''wzxhzdk:'' @ decimal k @ [CHR 0x02]"

definition store :: "string \<Rightarrow> extractor \<Rightarrow> string \<times> extractor" where
  "store html s =
     (get_placeholder (length (rawHtmlBlocks s)), s\<lparr>rawHtmlBlocks := rawHtmlBlocks s @ [html]\<rparr>)"

text \<open>
  \<open>line_offset\<close>: \<open>re.match('([^\n]*\n){N}', rawdata)\<close> with \<open>N = lineno - 1\<close> ends
  behind the \<open>N\<close>-th newline; without a match the index of the last newline is
  returned.
\<close>

fun match_lines :: "nat \<Rightarrow> string \<Rightarrow> nat option" where
  "match_lines 0 s = Some 0"
| "match_lines (Suc n) s =
     (case dropWhile (\<lambda>c. c \<noteq> NL) s of
        [] \<Rightarrow> None
      | c # r \<Rightarrow> map_option (\<lambda>e. length (takeWhile (\<lambda>c. c \<noteq> NL) s) + 1 + e) (match_lines n r))"

definition rfind :: "char \<Rightarrow> string \<Rightarrow> nat" where
  "rfind c s = length s - 1 - length (takeWhile (\<lambda>x. x \<noteq> c) (rev s))"

definition line_offset :: "extractor \<Rightarrow> nat" where
  "line_offset s =
     (if lineno s > 1 \<and> NL \<in> set (rawdata s) then
        (case match_lines (lineno s - 1) (rawdata s) of
           Some e \<Rightarrow> e
         | None \<Rightarrow> rfind NL (rawdata s))
      else 0)"

definition at_line_start :: "extractor \<Rightarrow> bool" where
  "at_line_start s =
     (if offset s = 0 then True
      else if offset s > 3 then False
      else strip (slice (rawdata s) (line_offset s) (line_offset s + offset s)) = [])"

text \<open>
  \<open>get_endtag_text\<close>: \<open>endendtag\<close> is the standard library's \<open>re.compile('>')\<close>,
  searched from \<open>start\<close>.
\<close>

definition find_from :: "char \<Rightarrow> string \<Rightarrow> nat \<Rightarrow> nat option" where
  "find_from c s start =
     (let r = drop start s in
      if c \<in> set r then Some (start + length (takeWhile (\<lambda>x. x \<noteq> c) r)) else None)"

definition get_endtag_text :: "string \<Rightarrow> extractor \<Rightarrow> string" where
  "get_endtag_text t s =
     (let start = line_offset s + offset s in
      case find_from (CHR ''>'') (rawdata s) start of
        Some k \<Rightarrow> slice (rawdata s) start (k + 1)
      | None \<Rightarrow> ''</'' @ t @ ''>'')"

text \<open>\<open>blank_line_re = ^([ ]*\n){2}\<close> under \<open>match\<close>.\<close>

definition blank_line_re_match :: "string \<Rightarrow> bool" where
  "blank_line_re_match s =
     (case dropWhile (\<lambda>c. c = SPC) s of
        [] \<Rightarrow> False
      | c # r \<Rightarrow>
          c = NL \<and>
          (case dropWhile (\<lambda>c. c = SPC) r of
             [] \<Rightarrow> False
           | d # r' \<Rightarrow> d = NL))"

text \<open>\<open>clear_cdata_mode\<close> of the standard library's parser.\<close>

definition clear_cdata_mode :: "extractor \<Rightarrow> extractor" where
  "clear_cdata_mode s = s\<lparr>cdata_elem := None\<rparr>"

definition CDATA_CONTENT_ELEMENTS :: "string list" where
  "CDATA_CONTENT_ELEMENTS = [''script'', ''style'']"

text \<open>
  The handlers. \<open>is_block_level\<close> is \<open>md.is_block_level\<close>, which markdown/core.py
  defines and the sources do not have: it is a parameter.
\<close>

definition handle_empty_tag :: "string \<Rightarrow> bool \<Rightarrow> extractor \<Rightarrow> extractor" where
  "handle_empty_tag data is_block s =
     (if inraw s \<or> intail s then s\<lparr>cache := cache s @ [data]\<rparr>
      else if at_line_start s \<and> is_block then
        (let blank = blank_line_re_match
                       (drop (line_offset s + offset s + length data) (rawdata s));
             data' = (if blank then data @ [NL] else data);
             s1 = (if blank then s else s\<lparr>intail := True\<rparr>);
             item = (if cleandoc s1 \<noteq> [] then last (cleandoc s1) else []);
             s2 = (if \<not> endswith item [NL, NL] \<and> endswith item [NL]
                   then s1\<lparr>cleandoc := cleandoc s1 @ [[NL]]\<rparr> else s1);
             (ph, s3) = store data' s2;
             s4 = s3\<lparr>cleandoc := cleandoc s3 @ [ph]\<rparr>
         in s4\<lparr>cleandoc := cleandoc s4 @ [[NL, NL]]\<rparr>)
      else s\<lparr>cleandoc := cleandoc s @ [data]\<rparr>)"

definition handle_startendtag ::
  "(string \<Rightarrow> bool) \<Rightarrow> string \<Rightarrow> (string \<times> string option) list \<Rightarrow> extractor \<Rightarrow> extractor" where
  "handle_startendtag is_block_level t attrs s =
     handle_empty_tag (starttag_text s) (is_block_level t) s"

definition handle_starttag ::
  "(string \<Rightarrow> bool) \<Rightarrow> string \<Rightarrow> (string \<times> string option) list \<Rightarrow> extractor \<Rightarrow> extractor" where
  "handle_starttag is_block_level t attrs s =
     (if t \<in> set (empty_tags s) then handle_startendtag is_block_level t attrs s
      else
        (let s1 = (if is_block_level t \<and> (intail s \<or> (at_line_start s \<and> \<not> inraw s))
                   then s\<lparr>inraw := True, cleandoc := cleandoc s @ [[NL]]\<rparr> else s);
             text = starttag_text s1
         in if inraw s1 then s1\<lparr>stack := stack s1 @ [t], cache := cache s1 @ [text]\<rparr>
            else
              (let s2 = s1\<lparr>cleandoc := cleandoc s1 @ [text]\<rparr>
               in if t \<in> set CDATA_CONTENT_ELEMENTS then clear_cdata_mode s2 else s2)))"

text \<open>The \<open>while self.stack\<close> loop of \<open>handle_endtag\<close>, on the reversed stack, and
  the stack after \<open>if tag in self.stack\<close>.\<close>

fun pop_until :: "string \<Rightarrow> string list \<Rightarrow> string list" where
  "pop_until t [] = []"
| "pop_until t (x # xs) = (if x = t then xs else pop_until t xs)"

definition stack_after_endtag :: "string \<Rightarrow> string list \<Rightarrow> string list" where
  "stack_after_endtag t st = (if t \<in> set st then rev (pop_until t (rev st)) else st)"

definition handle_endtag :: "string \<Rightarrow> extractor \<Rightarrow> extractor" where
  "handle_endtag t s =
     (let text = get_endtag_text t s in
      if inraw s then
        (let s1 = s\<lparr>cache := cache s @ [text]\<rparr>;
             s2 = s1\<lparr>stack := stack_after_endtag t (stack s1)\<rparr>
         in if length (stack s2) = 0 then
              (let s3 = (if blank_line_re_match
                              (drop (line_offset s2 + offset s2 + length text) (rawdata s2))
                         then s2\<lparr>cache := cache s2 @ [[NL]]\<rparr>
                         else s2\<lparr>intail := True\<rparr>);
                   s4 = s3\<lparr>inraw := False\<rparr>;
                   (ph, s5) = store (concat (cache s4)) s4;
                   s6 = s5\<lparr>cleandoc := cleandoc s5 @ [ph]\<rparr>;
                   s7 = s6\<lparr>cleandoc := cleandoc s6 @ [[NL, NL]]\<rparr>
               in s7\<lparr>cache := []\<rparr>)
            else s2)
      else s\<lparr>cleandoc := cleandoc s @ [text]\<rparr>)"

definition handle_data :: "string \<Rightarrow> extractor \<Rightarrow> extractor" where
  "handle_data data s =
     (let s1 = (if intail s \<and> NL \<in> set data then s\<lparr>intail := False\<rparr> else s)
      in if inraw s1 then s1\<lparr>cache := cache s1 @ [data]\<rparr>
         else s1\<lparr>cleandoc := cleandoc s1 @ [data]\<rparr>)"

definition handle_charref :: "string \<Rightarrow> extractor \<Rightarrow> extractor" where
  "handle_charref name s = handle_empty_tag (''&#'' @ name @ '';'') False s"

definition handle_entityref :: "string \<Rightarrow> extractor \<Rightarrow> extractor" where
  "handle_entityref name s = handle_empty_tag (''&'' @ name @ '';'') False s"

definition handle_comment :: "string \<Rightarrow> extractor \<Rightarrow> extractor" where
  "handle_comment data s = handle_empty_tag (''<!--'' @ data @ ''-->'') True s"

definition handle_decl :: "string \<Rightarrow> extractor \<Rightarrow> extractor" where
  "handle_decl data s = handle_empty_tag (''<!'' @ data @ ''>'') True s"

definition handle_pi :: "string \<Rightarrow> extractor \<Rightarrow> extractor" where
  "handle_pi data s = handle_empty_tag (''<?'' @ data @ ''?>'') True s"

definition unknown_decl :: "string \<Rightarrow> extractor \<Rightarrow> extractor" where
  "unknown_decl data s =
     handle_empty_tag
       (''<!['' @ data @ (if startswith data ''CDATA['' then '']]>'' else '']>'')) True s"

text \<open>
  \<open>updatepos(i, j)\<close> of the standard library's \<open>ParserBase\<close>, which moves
  \<open>lineno\<close> and \<open>offset\<close> over \<open>rawdata[i:j]\<close> after a handler has run.
\<close>

definition updatepos :: "nat \<Rightarrow> nat \<Rightarrow> extractor \<Rightarrow> extractor" where
  "updatepos i j s =
     (if i \<ge> j then s
      else
        (let seg = slice (rawdata s) i j;
             nlines = length (filter (\<lambda>c. c = NL) seg)
         in if nlines \<noteq> 0
            then s\<lparr>lineno := lineno s + nlines, offset := j - (i + rfind NL seg + 1)\<rparr>
            else s\<lparr>offset := offset s + (j - i)\<rparr>))"

text \<open>An instance of the core's classification, with the block-level tags the examples
  use.\<close>

definition ex_is_block_level :: "string \<Rightarrow> bool" where
  "ex_is_block_level t = (t \<in> set [''p'', ''div'', ''blockquote'', ''table'', ''hr''])"

text \<open>
  Example states. \<open>ex_at_endtag text\<close> is the extractor on a text that starts with
  \<open><p>a</p>\<close>, at the call of \<open>handle_endtag\<close> for \<open></p>\<close>: the handlers have run
  for \<open><p>\<close> and \<open>a\<close>, with the positions \<open>updatepos\<close> gives.
  \<open>ex_after_endtag text\<close> is the state after that end tag.
\<close>

definition ex_at_endtag :: "string \<Rightarrow> extractor" where
  "ex_at_endtag text =
     updatepos 3 4 (handle_data ''a'' (updatepos 0 3
       (handle_starttag ex_is_block_level ''p'' []
          ((HTMLExtractor_init text)\<lparr>starttag_text := ''<p>''\<rparr>))))"

definition ex_after_endtag :: "string \<Rightarrow> extractor" where
  "ex_after_endtag text = updatepos 4 8 (handle_endtag ''p'' (ex_at_endtag text))"

definition ex_raw_start :: extractor where
  "ex_raw_start =
     (updatepos 0 2 (handle_data ''  '' (HTMLExtractor_init ''  <p>a</p>'')))
       \<lparr>starttag_text := ''<p>''\<rparr>"

definition ex_at_div :: extractor where
  "ex_at_div = (ex_after_endtag ''<p>a</p><div>y</div>'')\<lparr>starttag_text := ''<div>''\<rparr>"

definition ex_blank_after :: extractor where
  "ex_blank_after = ex_at_endtag (''<p>a</p>'' @ [NL, NL] @ ''foo'')"

definition ex_tail :: extractor where
  "ex_tail = ex_after_endtag ''<p>a</p>x''"

definition ex_end_of_input :: extractor where
  "ex_end_of_input = ex_at_endtag ''<p>a</p>''"

section \<open>The abbreviations extension (markdown/extensions/abbr.py)\<close>

text \<open>
  \<open>AbbrBlockprocessor\<close>: the abbreviation table (a dict, shared with the extension)
  and the \<open>use_last_abbr\<close> option.
\<close>

record abbr_processor =
  abbrs :: "(string \<times> string) list"
  use_last_abbr :: bool

text \<open>
  \<open>RE = ^[*]\[(?P<abbr>[^\\]*?)\][ ]?:[ ]*\n?[ ]*(?P<title>.*)$\<close> with
  \<open>re.MULTILINE\<close>. \<open>abbr_closes\<close> matches \<open>[ ]?:\<close> behind a closing bracket
  and gives the rest. \<open>abbr_lazy\<close> is the lazy group: the shortest run without a
  backslash that a closing bracket, an optional space and a colon follow.
  \<open>abbr_title\<close> is the greedy tail, which always matches: spaces, an optional
  newline, spaces, and the title up to the end of the line; it gives the title and what
  is left behind the match.
\<close>

definition abbr_closes :: "string \<Rightarrow> string option" where
  "abbr_closes r =
     (case r of
        [] \<Rightarrow> None
      | c # r' \<Rightarrow>
          if c = SPC then
            (case r' of [] \<Rightarrow> None | d # r'' \<Rightarrow> if d = CHR '':'' then Some r'' else None)
          else if c = CHR '':'' then Some r'
          else None)"

fun abbr_lazy :: "string \<Rightarrow> string \<Rightarrow> (string \<times> string) option" where
  "abbr_lazy acc [] = None"
| "abbr_lazy acc (c # cs) =
     (case (if c = CHR '']'' then abbr_closes cs else None) of
        Some r \<Rightarrow> Some (acc, r)
      | None \<Rightarrow> if c = BSL then None else abbr_lazy (acc @ [c]) cs)"

definition abbr_title :: "string \<Rightarrow> string \<times> string" where
  "abbr_title r =
     (let r1 = dropWhile (\<lambda>c. c = SPC) r;
          r2 = (case r1 of [] \<Rightarrow> r1 | c # r' \<Rightarrow> if c = NL then r' else r1);
          r3 = dropWhile (\<lambda>c. c = SPC) r2
      in (takeWhile (\<lambda>c. c \<noteq> NL) r3, dropWhile (\<lambda>c. c \<noteq> NL) r3))"

definition abbr_match_here :: "string \<Rightarrow> (string \<times> string \<times> string) option" where
  "abbr_match_here s =
     (if startswith s ''*['' then
        (case abbr_lazy [] (drop 2 s) of
           None \<Rightarrow> None
         | Some (abbr, r) \<Rightarrow> (let (title, rest) = abbr_title r in Some (abbr, title, rest)))
      else None)"

text \<open>
  A match object: \<open>m.start()\<close>, \<open>m.end()\<close> and the two named groups.
  \<open>search\<close> tries the places from left to right; the caret matches at the start
  of the text and behind each newline.
\<close>

record abbr_match =
  m_start :: nat
  m_end :: nat
  m_abbr :: string
  m_title :: string

fun abbr_search_from :: "nat \<Rightarrow> bool \<Rightarrow> nat \<Rightarrow> string \<Rightarrow> abbr_match option" where
  "abbr_search_from n bol i [] = None"
| "abbr_search_from n bol i (c # cs) =
     (case (if bol then abbr_match_here (c # cs) else None) of
        Some (abbr, title, rest) \<Rightarrow>
          Some \<lparr>m_start = i, m_end = n - length rest, m_abbr = abbr, m_title = title\<rparr>
      | None \<Rightarrow> abbr_search_from n (c = NL) (i + 1) cs)"

definition AbbrBlockprocessor_RE_search :: "string \<Rightarrow> abbr_match option" where
  "AbbrBlockprocessor_RE_search block = abbr_search_from (length block) True 0 block"

text \<open>\<open>test\<close> and \<open>run\<close>. \<open>parent\<close> is not used (\<open>load_glossary\<close> passes
  \<open>None\<close>); \<open>blocks.pop(0)\<close> raises \<open>IndexError\<close> on the empty list.\<close>

definition AbbrBlockprocessor_test :: "abbr_processor \<Rightarrow> element option \<Rightarrow> string \<Rightarrow> bool" where
  "AbbrBlockprocessor_test self parent block = True"

definition AbbrBlockprocessor_run ::
  "abbr_processor \<Rightarrow> element option \<Rightarrow> string list \<Rightarrow>
     py_error + (retval \<times> abbr_processor \<times> string list)" where
  "AbbrBlockprocessor_run self parent blocks =
     (case blocks of
        [] \<Rightarrow> Inl IndexError
      | block # blocks0 \<Rightarrow>
          (case AbbrBlockprocessor_RE_search block of
             Some m \<Rightarrow>
               (let abbr = strip (m_abbr m);
                    title = strip (m_title m);
                    self1 = (if use_last_abbr self \<or> map_of (abbrs self) abbr = None
                             then self\<lparr>abbrs := dict_set (abbrs self) abbr title\<rparr> else self);
                    blocks1 = (if strip (drop (m_end m) block) \<noteq> []
                               then lstrip_by (\<lambda>c. c = NL) (drop (m_end m) block) # blocks0
                               else blocks0);
                    blocks2 = (if strip (take (m_start m) block) \<noteq> []
                               then rstrip_by (\<lambda>c. c = NL) (take (m_start m) block) # blocks1
                               else blocks1)
                in Inr (PyBool True, self1, blocks2))
           | None \<Rightarrow> Inr (PyBool False, self, block # blocks0)))"

definition ex_abbr :: abbr_processor where "ex_abbr = \<lparr>abbrs = [], use_last_abbr = True\<rparr>"

definition ex_abbr_block :: string where
  "ex_abbr_block = ''The HTML spec'' @ [NL] @ ''*[HTML] : Hyper Text'' @ [NL] @ ''after''"

section \<open>The command line (markdown/__main__.py)\<close>

text \<open>
  The option values that \<open>optparse\<close> fills, with the \<open>dest\<close> names of the
  \<open>add_option\<close> calls, and the dict that \<open>parse_options\<close> returns.
  \<open>CRITICAL\<close>, \<open>WARNING\<close> and \<open>DEBUG\<close> are the levels of \<open>logging\<close>.
\<close>

definition CRITICAL :: int where "CRITICAL = 50"

definition WARNING :: int where "WARNING = 30"

definition DEBUG :: int where "DEBUG = 10"

record optparse_values =
  filename :: "string option"
  encoding :: "string option"
  output_format :: string
  lazy_ol :: bool
  extensions :: "string list option"
  configfile :: "string option"
  verbose :: int

type_synonym config = "(string \<times> (string \<times> string) list) list"

record opts =
  opts_input :: "string option"
  opts_output :: "string option"
  opts_extensions :: "string list"
  opts_extension_configs :: config
  opts_encoding :: "string option"
  opts_output_format :: string
  opts_lazy_ol :: bool

text \<open>
  The options in the order of the \<open>add_option\<close> calls; \<open>OptionParser\<close> adds
  \<open>-h/--help\<close> and, as a version is given, \<open>--version\<close>.
\<close>

datatype cli_option =
  OptFile | OptEncoding | OptOutputFormat | OptNoLazyOl | OptExtension | OptConfigs |
  OptQuiet | OptVerbose | OptNoisy | OptHelp | OptVersion

definition short_opt :: "char \<Rightarrow> cli_option option" where
  "short_opt ch =
     map_of [(CHR ''f'', OptFile), (CHR ''e'', OptEncoding), (CHR ''o'', OptOutputFormat),
             (CHR ''n'', OptNoLazyOl), (CHR ''x'', OptExtension), (CHR ''c'', OptConfigs),
             (CHR ''q'', OptQuiet), (CHR ''v'', OptVerbose), (CHR ''h'', OptHelp)] ch"

definition long_opt :: "(string \<times> cli_option) list" where
  "long_opt =
     [(''--help'', OptHelp), (''--version'', OptVersion),
      (''--file'', OptFile), (''--encoding'', OptEncoding),
      (''--output_format'', OptOutputFormat), (''--no_lazy_ol'', OptNoLazyOl),
      (''--extension'', OptExtension), (''--extension_configs'', OptConfigs),
      (''--quiet'', OptQuiet), (''--verbose'', OptVerbose), (''--noisy'', OptNoisy)]"

definition takes_value :: "cli_option \<Rightarrow> bool" where
  "takes_value opt = (opt \<in> set [OptFile, OptEncoding, OptOutputFormat, OptExtension, OptConfigs])"

text \<open>The defaults: those given to \<open>add_option\<close>, and \<open>None\<close> for the others.\<close>

definition get_default_values :: optparse_values where
  "get_default_values =
     \<lparr>filename = None, encoding = None, output_format = ''xhtml'', lazy_ol = True,
      extensions = None, configfile = None, verbose = CRITICAL\<rparr>"

text \<open>
  \<open>Option.process\<close> with \<open>take_action\<close>: \<open>store\<close>, \<open>store_false\<close>,
  \<open>append\<close> and \<open>store_const\<close>; \<open>help\<close> and \<open>version\<close> print and leave with
  status 0. An option that takes a value is always given one.
\<close>

definition process :: "cli_option \<Rightarrow> string \<Rightarrow> optparse_values \<Rightarrow> py_error + optparse_values" where
  "process opt v values =
     (case opt of
        OptFile \<Rightarrow> Inr (values\<lparr>filename := Some v\<rparr>)
      | OptEncoding \<Rightarrow> Inr (values\<lparr>encoding := Some v\<rparr>)
      | OptOutputFormat \<Rightarrow> Inr (values\<lparr>output_format := v\<rparr>)
      | OptNoLazyOl \<Rightarrow> Inr (values\<lparr>lazy_ol := False\<rparr>)
      | OptExtension \<Rightarrow>
          Inr (values\<lparr>extensions :=
                 Some ((case extensions values of None \<Rightarrow> [] | Some xs \<Rightarrow> xs) @ [v])\<rparr>)
      | OptConfigs \<Rightarrow> Inr (values\<lparr>configfile := Some v\<rparr>)
      | OptQuiet \<Rightarrow> Inr (values\<lparr>verbose := CRITICAL + 10\<rparr>)
      | OptVerbose \<Rightarrow> Inr (values\<lparr>verbose := WARNING\<rparr>)
      | OptNoisy \<Rightarrow> Inr (values\<lparr>verbose := DEBUG\<rparr>)
      | OptHelp \<Rightarrow> Inl (SystemExit 0)
      | OptVersion \<Rightarrow> Inl (SystemExit 0))"

text \<open>
  \<open>_match_abbrev\<close>: the exact name, or the one name that the text abbreviates; no
  name or several are an error, which \<open>parse_args\<close> turns into \<open>error()\<close> and
  status 2.
\<close>

definition match_abbrev :: "string \<Rightarrow> py_error + cli_option" where
  "match_abbrev s =
     (case map_of long_opt s of
        Some opt \<Rightarrow> Inr opt
      | None \<Rightarrow>
          (case filter (\<lambda>(word, opt). startswith word s) long_opt of
             [(word, opt)] \<Rightarrow> Inr opt
           | _ \<Rightarrow> Inl (SystemExit 2)))"

text \<open>
  The loop of \<open>_process_short_opts\<close> over the characters behind the dash, as far as
  the options take no value. It ends with the values, and with the first option that
  takes a value together with the characters left behind it, if there is one.
\<close>

fun short_flags ::
  "string \<Rightarrow> optparse_values \<Rightarrow> py_error + (optparse_values \<times> (cli_option \<times> string) option)" where
  "short_flags [] values = Inr (values, None)"
| "short_flags (ch # rest) values =
     (case short_opt ch of
        None \<Rightarrow> Inl (SystemExit 2)
      | Some opt \<Rightarrow>
          if takes_value opt then Inr (values, Some (opt, rest))
          else (case process opt [] values of
                  Inl e \<Rightarrow> Inl e
                | Inr values' \<Rightarrow> short_flags rest values'))"

text \<open>
  \<open>_process_args\<close> with \<open>_process_long_opt\<close> and \<open>_process_short_opts\<close>: the
  leftover arguments \<open>largs\<close>, the arguments still to read, and the values. The result
  is \<open>largs + rargs\<close> and the values.
\<close>

fun process_args ::
  "string list \<Rightarrow> string list \<Rightarrow> optparse_values \<Rightarrow> py_error + (string list \<times> optparse_values)" where
  "process_args largs [] values = Inr (largs, values)"
| "process_args largs (arg # rargs) values =
     (if arg = ''--'' then Inr (largs @ rargs, values)
      else if take 2 arg = ''--'' then
        (let name = takeWhile (\<lambda>c. c \<noteq> CHR ''='') arg;
             explicit = (if CHR ''='' \<in> set arg
                         then Some (drop 1 (dropWhile (\<lambda>c. c \<noteq> CHR ''='') arg)) else None)
         in case match_abbrev name of
              Inl e \<Rightarrow> Inl e
            | Inr opt \<Rightarrow>
                if takes_value opt then
                  (case explicit of
                     Some v \<Rightarrow>
                       (case process opt v values of
                          Inl e \<Rightarrow> Inl e
                        | Inr values' \<Rightarrow> process_args largs rargs values')
                   | None \<Rightarrow>
                       (case rargs of
                          [] \<Rightarrow> Inl (SystemExit 2)
                        | v # rargs' \<Rightarrow>
                            (case process opt v values of
                               Inl e \<Rightarrow> Inl e
                             | Inr values' \<Rightarrow> process_args largs rargs' values')))
                else if explicit \<noteq> None then Inl (SystemExit 2)
                else (case process opt [] values of
                        Inl e \<Rightarrow> Inl e
                      | Inr values' \<Rightarrow> process_args largs rargs values'))
      else if take 1 arg = ''-'' \<and> length arg > 1 then
        (case short_flags (drop 1 arg) values of
           Inl e \<Rightarrow> Inl e
         | Inr (values', None) \<Rightarrow> process_args largs rargs values'
         | Inr (values', Some (opt, rest)) \<Rightarrow>
             if rest \<noteq> [] then
               (case process opt rest values' of
                  Inl e \<Rightarrow> Inl e
                | Inr values'' \<Rightarrow> process_args largs rargs values'')
             else
               (case rargs of
                  [] \<Rightarrow> Inl (SystemExit 2)
                | v # rargs' \<Rightarrow>
                    (case process opt v values' of
                       Inl e \<Rightarrow> Inl e
                     | Inr values'' \<Rightarrow> process_args largs rargs' values'')))
      else process_args (largs @ [arg]) rargs values)"

text \<open>
  \<open>parse_options(args)\<close>. Reading the configuration file is outside the program:
  \<open>yaml_load\<close> stands for opening the file with the encoding and loading it, and
  gives the dict or the exception raised.
\<close>

definition parse_options ::
  "(string \<Rightarrow> string option \<Rightarrow> py_error + config) \<Rightarrow> string list \<Rightarrow> py_error + (opts \<times> int)" where
  "parse_options yaml_load args0 =
     (case process_args [] args0 get_default_values of
        Inl e \<Rightarrow> Inl e
      | Inr (args, options) \<Rightarrow>
          (let input_file = (if length args = 0 then None else Some (args ! 0));
               exts = (case extensions options of None \<Rightarrow> [] | Some xs \<Rightarrow> xs);
               loaded = (case configfile options of
                           None \<Rightarrow> Inr []
                         | Some f \<Rightarrow> if f = [] then Inr [] else yaml_load f (encoding options))
           in case loaded of
                Inl e \<Rightarrow> Inl e
              | Inr extension_configs \<Rightarrow>
                  Inr (\<lparr>opts_input = input_file, opts_output = filename options,
                        opts_extensions = exts, opts_extension_configs = extension_configs,
                        opts_encoding = encoding options,
                        opts_output_format = output_format options,
                        opts_lazy_ol = lazy_ol options\<rparr>,
                       verbose options)))"

definition default_options :: opts where
  "default_options =
     \<lparr>opts_input = None, opts_output = None, opts_extensions = [],
      opts_extension_configs = [], opts_encoding = None, opts_output_format = ''xhtml'',
      opts_lazy_ol = True\<rparr>"

section \<open>The tokenizer's patched regular expressions (markdown/htmlparser.py)\<close>

text \<open>
  The three regular expressions that the module puts into its copy of the standard
  library's \<open>html.parser\<close>:
  \<open>piclose = \?>\<close>, \<open>entityref = &([a-zA-Z][-.a-zA-Z0-9]*);\<close> and
  \<open>incomplete = entityref\<close>. \<open>piclose\<close> is used with \<open>search\<close> from a position
  and gives the start and the end of the first match; the other two are used with
  \<open>match\<close> at a position and give group 1 and the end of the match.
\<close>

fun find_pair :: "char \<Rightarrow> char \<Rightarrow> nat \<Rightarrow> string \<Rightarrow> nat option" where
  "find_pair a b i (c # d # r) = (if c = a \<and> d = b then Some i else find_pair a b (i + 1) (d # r))"
| "find_pair a b i r = None"

definition piclose_search :: "string \<Rightarrow> nat \<Rightarrow> (nat \<times> nat) option" where
  "piclose_search s pos =
     map_option (\<lambda>j. (j, j + 2)) (find_pair (CHR ''?'') (CHR ''>'') pos (drop pos s))"

definition is_ascii_alpha :: "char \<Rightarrow> bool" where
  "is_ascii_alpha c = (let n = of_char c :: nat in (65 \<le> n \<and> n \<le> 90) \<or> (97 \<le> n \<and> n \<le> 122))"

definition is_ascii_digit :: "char \<Rightarrow> bool" where
  "is_ascii_digit c = (let n = of_char c :: nat in 48 \<le> n \<and> n \<le> 57)"

definition is_entity_char :: "char \<Rightarrow> bool" where
  "is_entity_char c = (c = CHR ''-'' \<or> c = CHR ''.'' \<or> is_ascii_alpha c \<or> is_ascii_digit c)"

definition entityref_match :: "string \<Rightarrow> nat \<Rightarrow> (string \<times> nat) option" where
  "entityref_match s pos =
     (case drop pos s of
        amp # c # r \<Rightarrow>
          if amp = CHR ''&'' \<and> is_ascii_alpha c then
            (let name = c # takeWhile is_entity_char r in
             case dropWhile is_entity_char r of
               [] \<Rightarrow> None
             | d # r' \<Rightarrow> if d = CHR '';'' then Some (name, pos + length name + 2) else None)
          else None
      | _ \<Rightarrow> None)"

definition incomplete_match :: "string \<Rightarrow> nat \<Rightarrow> (string \<times> nat) option" where
  "incomplete_match = entityref_match"

text \<open>
  The two places of the standard library's tokenizer that use these expressions, with
  the handlers of \<open>HTMLExtractor\<close>. \<open>parse_pi(i)\<close> is called at \<open><?\<close> and gives
  the end of the instruction, or \<open>None\<close> for \<open>-1\<close> when it is not closed.
  \<open>goahead_amp\<close> is the branch of the loop of \<open>goahead(end)\<close> for an ampersand that
  starts no numeric reference: the loop goes on at a new place or is left, and what is
  left unread is kept as incomplete input.
\<close>

definition parse_pi :: "nat \<Rightarrow> extractor \<Rightarrow> nat option \<times> extractor" where
  "parse_pi i s =
     (case piclose_search (rawdata s) (i + 2) of
        None \<Rightarrow> (None, s)
      | Some (j, e) \<Rightarrow> (Some e, handle_pi (slice (rawdata s) (i + 2) j) s))"

datatype loop_step = Continue nat extractor | Break nat extractor

definition goahead_amp :: "bool \<Rightarrow> nat \<Rightarrow> extractor \<Rightarrow> loop_step" where
  "goahead_amp at_end i s =
     (case entityref_match (rawdata s) i of
        Some (name, k0) \<Rightarrow>
          (let s1 = handle_entityref name s;
               k = (if startswith (drop (k0 - 1) (rawdata s)) '';'' then k0 else k0 - 1)
           in Continue k (updatepos i k s1))
      | None \<Rightarrow>
          (case incomplete_match (rawdata s) i of
             Some (name, k0) \<Rightarrow>
               if at_end \<and> slice (rawdata s) i k0 = drop i (rawdata s)
               then Break (i + 1) (updatepos i (i + 1) s)
               else Break i s
           | None \<Rightarrow>
               if i + 1 < length (rawdata s)
               then Continue (i + 1) (updatepos i (i + 1) (handle_data ''&'' s))
               else Break i s))"

text \<open>
  Examples: a processing instruction with a bare \<open>>\<close> inside, a reference with its
  semicolon, and one without.
\<close>

definition ex_pi :: extractor where
  "ex_pi = HTMLExtractor_init ''<?php echo 1 > 0; ?>''"

definition ex_entity :: extractor where
  "ex_entity = updatepos 0 2 (handle_data ''a '' (HTMLExtractor_init ''a &amp b &amp; c''))"

section \<open>The registry (markdown/util.py, from the spec)\<close>

text \<open>
  Modelled from the spec: the \<open>Registry\<close> of markdown/util.py, which is not among the
  sources (only its tests are). Following the spec's words: an ordered collection of
  (name, item, priority) triples with unique names; \<open>register\<close> adds or replaces by
  name and marks the registry dirty; \<open>deregister\<close> removes by name and fails with
  \<open>NotFound\<close> in strict mode when the name is absent; every read sorts first when the
  registry is dirty; the order is a stable sort by priority descending in which, among
  equal priorities, later registrations precede earlier ones. To get the last from a
  stable sort, a registration is put in front of the stored triples.
\<close>

datatype registry_error = NotFound

record ('a, 'p) registry =
  priority_list :: "(string \<times> 'a \<times> 'p) list"
  is_sorted :: bool

definition e_name :: "string \<times> 'a \<times> 'p \<Rightarrow> string" where
  "e_name e = fst e"

definition e_item :: "string \<times> 'a \<times> 'p \<Rightarrow> 'a" where
  "e_item e = fst (snd e)"

definition e_priority :: "string \<times> 'a \<times> 'p \<Rightarrow> 'p" where
  "e_priority e = snd (snd e)"

definition Registry_init :: "('a, 'p) registry" where
  "Registry_init = \<lparr>priority_list = [], is_sorted = False\<rparr>"

text \<open>
  Modelled from the spec: \<open>register(item, name, priority)\<close> adds or replaces by
  name and marks the registry dirty; \<open>deregister(name, strict)\<close> removes by name,
  marks the registry dirty, and fails with \<open>NotFound\<close> when the name is absent and
  \<open>strict\<close> is set.
\<close>

definition register :: "'a \<Rightarrow> string \<Rightarrow> 'p \<Rightarrow> ('a, 'p) registry \<Rightarrow> ('a, 'p) registry" where
  "register item name priority r =
     r\<lparr>priority_list := (name, item, priority) # filter (\<lambda>e. e_name e \<noteq> name) (priority_list r),
       is_sorted := False\<rparr>"

definition deregister ::
  "string \<Rightarrow> bool \<Rightarrow> ('a, 'p) registry \<Rightarrow> registry_error + ('a, 'p) registry" where
  "deregister name strict r =
     (if name \<in> set (map e_name (priority_list r))
      then Inr (r\<lparr>priority_list := filter (\<lambda>e. e_name e \<noteq> name) (priority_list r),
                  is_sorted := False\<rparr>)
      else if strict then Inl NotFound
      else Inr r)"

text \<open>
  Modelled from the spec: the lazy sort. The stable sort by priority descending is an
  insertion sort that puts a triple in front of the first one whose priority is not
  higher; a read sorts when the registry is dirty.
\<close>

fun insert_desc :: "string \<times> 'a \<times> ('p :: linorder) \<Rightarrow> (string \<times> 'a \<times> 'p) list \<Rightarrow> (string \<times> 'a \<times> 'p) list" where
  "insert_desc x [] = [x]"
| "insert_desc x (y # ys) =
     (if e_priority y \<le> e_priority x then x # y # ys else y # insert_desc x ys)"

definition sort_desc :: "(string \<times> 'a \<times> ('p :: linorder)) list \<Rightarrow> (string \<times> 'a \<times> 'p) list" where
  "sort_desc xs = foldr insert_desc xs []"

definition sort_registry :: "('a, 'p :: linorder) registry \<Rightarrow> ('a, 'p) registry" where
  "sort_registry r =
     (if is_sorted r then r
      else r\<lparr>priority_list := sort_desc (priority_list r), is_sorted := True\<rparr>)"

text \<open>
  Modelled from the spec: the reads, which sort first. Iteration gives the triples in
  order (the items are their second components); \<open>len\<close>; and
  \<open>get_index_for_name\<close>, which fails with \<open>NotFound\<close> when the name is absent.
\<close>

definition iterate :: "('a, 'p :: linorder) registry \<Rightarrow> (string \<times> 'a \<times> 'p) list" where
  "iterate r = priority_list (sort_registry r)"

definition registry_len :: "('a, 'p :: linorder) registry \<Rightarrow> nat" where
  "registry_len r = length (iterate r)"

definition get_index_for_name :: "string \<Rightarrow> ('a, 'p :: linorder) registry \<Rightarrow> registry_error + nat" where
  "get_index_for_name name r =
     (case index_of name (map e_name (iterate r)) of
        None \<Rightarrow> Inl NotFound
      | Some k \<Rightarrow> Inr k)"

text \<open>A sequence of operations on a registry; \<open>Read\<close> is any read, which sorts.\<close>

datatype ('a, 'p) registry_op = Register 'a string 'p | Deregister string bool | Read

fun apply_op :: "('a, 'p :: linorder) registry_op \<Rightarrow> ('a, 'p) registry \<Rightarrow> registry_error + ('a, 'p) registry" where
  "apply_op (Register item name priority) r = Inr (register item name priority r)"
| "apply_op (Deregister name strict) r = deregister name strict r"
| "apply_op Read r = Inr (sort_registry r)"

fun run_ops :: "('a, 'p :: linorder) registry \<Rightarrow> ('a, 'p) registry_op list \<Rightarrow> registry_error + ('a, 'p) registry" where
  "run_ops r [] = Inr r"
| "run_ops r (op # ops) =
     (case apply_op op r of
        Inl e \<Rightarrow> Inl e
      | Inr r' \<Rightarrow> run_ops r' ops)"

text \<open>
  What a sequence of operations says about a name: \<open>last_registered ops name\<close> is the
  place (from 1) of the last registration of the name in \<open>ops\<close>, or 0;
  \<open>registration ops name\<close> is the item and priority of that registration, unless the
  name was deregistered after it.
\<close>

fun last_registered_from :: "nat \<Rightarrow> ('a, 'p) registry_op list \<Rightarrow> string \<Rightarrow> nat \<Rightarrow> nat" where
  "last_registered_from k [] name acc = acc"
| "last_registered_from k (Register item n priority # ops) name acc =
     last_registered_from (k + 1) ops name (if n = name then k + 1 else acc)"
| "last_registered_from k (op # ops) name acc = last_registered_from (k + 1) ops name acc"

definition last_registered :: "('a, 'p) registry_op list \<Rightarrow> string \<Rightarrow> nat" where
  "last_registered ops name = last_registered_from 0 ops name 0"

fun registration_from :: "('a, 'p) registry_op list \<Rightarrow> string \<Rightarrow> ('a \<times> 'p) option \<Rightarrow> ('a \<times> 'p) option" where
  "registration_from [] name acc = acc"
| "registration_from (Register item n priority # ops) name acc =
     registration_from ops name (if n = name then Some (item, priority) else acc)"
| "registration_from (Deregister n strict # ops) name acc =
     registration_from ops name (if n = name then None else acc)"
| "registration_from (Read # ops) name acc = registration_from ops name acc"

definition registration :: "('a, 'p) registry_op list \<Rightarrow> string \<Rightarrow> ('a \<times> 'p) option" where
  "registration ops name = registration_from ops name None"

text \<open>The order of iteration that the spec states: priority descending, and among equal
  priorities the later registration first.\<close>

definition precedes :: "('a, 'p :: linorder) registry_op list \<Rightarrow> string \<times> 'a \<times> 'p \<Rightarrow> string \<times> 'a \<times> 'p \<Rightarrow> bool" where
  "precedes ops a b =
     (e_priority b < e_priority a \<or>
      (e_priority a = e_priority b \<and>
       last_registered ops (e_name b) < last_registered ops (e_name a)))"

definition ex_registry_ops :: "(string, rat) registry_op list" where
  "ex_registry_ops =
     [Register ''A'' ''a'' 20, Register ''B'' ''b'' 21, Read, Register ''C'' ''c'' (41 / 2),
      Register ''D'' ''d'' 20, Register ''B2'' ''b'' 20, Deregister ''d'' True,
      Deregister ''zz'' False]"

definition ex_registry :: "(string, rat) registry" where
  "ex_registry =
     \<lparr>priority_list = [(''b'', ''B2'', 20), (''c'', ''C'', 41 / 2), (''a'', ''A'', 20)],
      is_sorted = False\<rparr>"

text \<open>What holds of the stored triples after any sequence of operations.\<close>

definition registry_inv :: "('a, 'p :: linorder) registry_op list \<Rightarrow> ('a, 'p) registry \<Rightarrow> bool" where
  "registry_inv ops r =
     (distinct (map e_name (priority_list r)) \<and>
      sorted_wrt (\<lambda>a b. e_priority a = e_priority b \<longrightarrow>
                    last_registered ops (e_name b) < last_registered ops (e_name a))
        (priority_list r) \<and>
      (is_sorted r \<longrightarrow> sorted_wrt (\<lambda>a b. e_priority b \<le> e_priority a) (priority_list r)) \<and>
      (\<forall>n i p. (n, i, p) \<in> set (priority_list r) \<longleftrightarrow> registration ops n = Some (i, p)))"

section \<open>The inline processor and the serializer (from the spec)\<close>

text \<open>
  Modelled from the spec: the inline processor of markdown/treeprocessors.py and
  markdown/inlinepatterns.py, which are not among the sources. A string in a text or
  tail slot carries the flag of the spec's atomic string, and the tree is the spec's
  document tree with such strings.
\<close>

datatype pystr = Str string | AtomicString string

fun body :: "pystr \<Rightarrow> string" where
  "body (Str s) = s"
| "body (AtomicString s) = s"

datatype node =
  Node (n_tag: string) (n_attrib: "(string \<times> string) list") (n_text: "pystr option")
       (n_children: "node list") (n_tail: "pystr option")

text \<open>
  Modelled from the spec: an inline processor is a compiled pattern, \<open>handleMatch\<close>
  and \<open>ANCESTOR_EXCLUDES\<close>. \<open>ip_search\<close> is the pattern's first match in the data,
  as start and end; \<open>ip_handleMatch\<close> gets the data and the match and returns an
  element, a string or nothing.
\<close>

datatype handled = HElement node | HString string | HNone

record inline_processor =
  ip_search :: "string \<Rightarrow> (nat \<times> nat) option"
  ip_handleMatch :: "string \<Rightarrow> nat \<Rightarrow> nat \<Rightarrow> handled"
  ANCESTOR_EXCLUDES :: "string list"

text \<open>
  Modelled from the spec: a match inside an element whose ancestor chain contains an
  excluded tag is rejected; among the others the earliest match wins, and among equal
  starts the processor of higher priority, which stands first in the list.
\<close>

definition excluded :: "inline_processor \<Rightarrow> string list \<Rightarrow> bool" where
  "excluded p ancestors = list_ex (\<lambda>t. t \<in> set (ANCESTOR_EXCLUDES p)) ancestors"

fun earliest ::
  "inline_processor list \<Rightarrow> string list \<Rightarrow> string \<Rightarrow> (nat \<times> nat \<times> inline_processor) option" where
  "earliest [] ancestors data = None"
| "earliest (p # ps) ancestors data =
     (case (if excluded p ancestors then None else ip_search p data) of
        None \<Rightarrow> earliest ps ancestors data
      | Some (s, e) \<Rightarrow>
          (case earliest ps ancestors data of
             None \<Rightarrow> Some (s, e, p)
           | Some (s', e', p') \<Rightarrow> if s \<le> s' then Some (s, e, p) else Some (s', e', p')))"

text \<open>
  Modelled from the spec: the matched span is replaced by what the processor returns,
  and the text before and behind it is matched further, until no match remains. A match
  consumes at least one character.
\<close>

datatype piece = PText string | PNode node

function expand :: "inline_processor list \<Rightarrow> string list \<Rightarrow> string \<Rightarrow> piece list" where
  "expand procs ancestors data =
     (case earliest procs ancestors data of
        None \<Rightarrow> [PText data]
      | Some (s, e, p) \<Rightarrow>
          if s < e \<and> e \<le> length data then
            expand procs ancestors (take s data) @
            (case ip_handleMatch p data s e of
               HElement el \<Rightarrow> [PNode el]
             | HString t \<Rightarrow> [PText t]
             | HNone \<Rightarrow> []) @
            expand procs ancestors (drop e data)
          else [PText data])"
  by pat_completeness auto
termination
  by (relation "measure (\<lambda>(procs, ancestors, data). length data)") auto

declare expand.simps [simp del]

text \<open>The pieces as the text in front and the new elements, each with the text behind
  it as its tail.\<close>

fun assemble :: "piece list \<Rightarrow> string \<times> node list" where
  "assemble [] = ([], [])"
| "assemble (PText t # ps) = (let (lead, ns) = assemble ps in (t @ lead, ns))"
| "assemble (PNode (Node t a x c l) # ps) =
     (let (lead, ns) = assemble ps
      in ([], Node t a x c (if lead = [] then None else Some (Str lead)) # ns))"

text \<open>
  Modelled from the spec: the walk over every element's text and tail. A string that is
  flagged atomic is skipped. The text of an element is matched inside the element, its
  tail inside the element's parent. The result is the element and the elements made
  from its tail. \<open>fuel\<close> bounds the depth of the walk, as the elements that processors
  return are walked too.
\<close>

fun expand_slot ::
  "inline_processor list \<Rightarrow> string list \<Rightarrow> pystr option \<Rightarrow> pystr option \<times> node list" where
  "expand_slot procs ancestors (Some (Str s)) =
     (let (lead, ns) = assemble (expand procs ancestors s) in (Some (Str lead), ns))"
| "expand_slot procs ancestors slot = (slot, [])"

fun run_inline :: "nat \<Rightarrow> inline_processor list \<Rightarrow> string list \<Rightarrow> node \<Rightarrow> node list" where
  "run_inline 0 procs ancestors n = [n]"
| "run_inline (Suc fuel) procs ancestors (Node t a x c l) =
     (let (x', from_text) = expand_slot procs (ancestors @ [t]) x;
          c' = concat (map (run_inline fuel procs (ancestors @ [t])) (from_text @ c));
          (l', from_tail) = expand_slot procs ancestors l
      in Node t a x' c' l' # concat (map (run_inline fuel procs ancestors) from_tail))"

text \<open>
  Modelled from the spec: the serializer (markdown/serializers.py is not among the
  sources) for elements with a plain tag. Text content escapes \<open>&\<close>, \<open><\<close> and
  \<open>>\<close>; attribute values escape the double quote too; an atomic string is
  serialized as a plain one. Void elements have no content and no end tag; the XHTML
  mode closes them with a slash.
\<close>

fun escape_text :: "string \<Rightarrow> string" where
  "escape_text [] = []"
| "escape_text (c # cs) =
     (if c = CHR ''&'' then ''&amp;'' else if c = CHR ''<'' then ''&lt;''
      else if c = CHR ''>'' then ''&gt;'' else [c]) @ escape_text cs"

fun escape_attrib :: "string \<Rightarrow> string" where
  "escape_attrib [] = []"
| "escape_attrib (c # cs) =
     (if c = CHR ''&'' then ''&amp;'' else if c = CHR ''<'' then ''&lt;''
      else if c = CHR ''>'' then ''&gt;'' else if c = CHR 0x22 then ''&quot;''
      else if (of_char c :: nat) < 32 then ''&#'' @ decimal (of_char c) @ '';''
      else [c]) @ escape_attrib cs"

definition serialize_slot :: "pystr option \<Rightarrow> string" where
  "serialize_slot slot = (case slot of None \<Rightarrow> [] | Some s \<Rightarrow> escape_text (body s))"

definition void_elements :: "string list" where
  "void_elements = [''hr'', ''br'', ''img'', ''input'']"

fun serialize :: "bool \<Rightarrow> node \<Rightarrow> string" where
  "serialize xhtml (Node t a x c l) =
     ''<'' @ t @
     concat (map (\<lambda>(k, v). '' '' @ k @
               (if \<not> xhtml \<and> (v = [] \<or> v = k) then []
                else ''='' @ [CHR 0x22] @ escape_attrib v @ [CHR 0x22])) a) @
     (if t \<in> set void_elements then (if xhtml then '' />'' else ''>'')
      else ''>'' @ serialize_slot x @ concat (map (serialize xhtml) c) @ ''</'' @ t @ ''>'') @
     serialize_slot l"

text \<open>Every string of the tree is flagged atomic or absent.\<close>

fun atomic_slot :: "pystr option \<Rightarrow> bool" where
  "atomic_slot (Some (Str s)) = False"
| "atomic_slot slot = True"

fun all_atomic :: "node \<Rightarrow> bool" where
  "all_atomic (Node t a x c l) = (atomic_slot x \<and> atomic_slot l \<and> list_all all_atomic c)"

text \<open>The tree with every string plain: the strings as the serializer sees them.\<close>

fun plain_slot :: "pystr option \<Rightarrow> pystr option" where
  "plain_slot None = None"
| "plain_slot (Some s) = Some (Str (body s))"

fun plain :: "node \<Rightarrow> node" where
  "plain (Node t a x c l) = Node t a (plain_slot x) (map plain c) (plain_slot l)"

text \<open>
  The processor of \<open>TestAncestorExclusion\<close> (tests/test_apis.py): the pattern
  \<open>(\+)([^\+]+)\1\<close>, \<open>handleMatch\<close> that returns a \<open>strong\<close> element with group
  2 as its text, and \<open>ANCESTOR_EXCLUDES = ('a',)\<close>.
\<close>

fun plus_search_from :: "nat \<Rightarrow> string \<Rightarrow> (nat \<times> nat) option" where
  "plus_search_from i [] = None"
| "plus_search_from i (c # cs) =
     (if c = CHR ''+'' \<and> takeWhile (\<lambda>x. x \<noteq> CHR ''+'') cs \<noteq> [] \<and>
         dropWhile (\<lambda>x. x \<noteq> CHR ''+'') cs \<noteq> []
      then Some (i, i + length (takeWhile (\<lambda>x. x \<noteq> CHR ''+'') cs) + 2)
      else plus_search_from (i + 1) cs)"

definition AncestorExample :: inline_processor where
  "AncestorExample =
     \<lparr>ip_search = plus_search_from 0,
      ip_handleMatch = (\<lambda>data s e.
         HElement (Node ''strong'' [] (Some (Str (slice data (s + 1) (e - 1)))) [] None)),
      ANCESTOR_EXCLUDES = [''a'']\<rparr>"

definition ex_paragraph :: node where
  "ex_paragraph =
     Node ''p'' [] (Some (Str ''Some +test+ and a ''))
       [Node ''a'' [(''href'', ''http://test.com'')] (Some (Str ''+link+'')) [] None] None"

definition ex_link_tail :: node where
  "ex_link_tail =
     Node ''p'' [] None
       [Node ''a'' [(''href'', ''http://test.com'')] None
          [Node ''strong'' [] None
             [Node ''em'' [] (Some (Str ''+em+'')) [] (Some (Str ''+strong+''))] None] None]
       None"

definition ex_atomic :: node where
  "ex_atomic =
     Node ''div'' [] None
       [Node ''p'' [] (Some (AtomicString ''*some* +x+ ''))
          [Node ''span'' [] (Some (AtomicString ''+more+ <b> ''))
             [] (Some (AtomicString '' +with+''))] None] None"

definition ex_paragraph_out :: node where
  "ex_paragraph_out =
     Node ''p'' [] (Some (Str ''Some ''))
       [Node ''strong'' [] (Some (Str ''test'')) [] (Some (Str '' and a '')),
        Node ''a'' [(''href'', ''http://test.com'')] (Some (Str ''+link+'')) [] None] None"

text \<open>A paragraph whose link is followed by text: the tail of the \<open>a\<close> element, which
  lies in the paragraph and not in the link, and the tree expected of the processor.\<close>

definition ex_link_followed :: node where
  "ex_link_followed =
     Node ''p'' [] None
       [Node ''a'' [(''href'', ''http://test.com'')] (Some (Str ''+link+'')) []
          (Some (Str '' and +after+''))] None"

definition ex_link_followed_out :: node where
  "ex_link_followed_out =
     Node ''p'' [] None
       [Node ''a'' [(''href'', ''http://test.com'')] (Some (Str ''+link+'')) []
          (Some (Str '' and '')),
        Node ''strong'' [] (Some (Str ''after'')) [] None] None"

section \<open>Properties of the tables extension\<close>

lemma build_cells_length: "length (build_cells self t cells i align) = length align"
  by (induction align arbitrary: i) (simp_all add: Let_def)

lemma build_cells_nth:
  "k < length align \<Longrightarrow>
     el_tag (build_cells self t cells i align ! k) = t \<and>
     el_text (build_cells self t cells i align ! k) =
       Some (if i + k < length cells then strip_spaces (cells ! (i + k)) else [])"
proof (induction align arbitrary: i k)
  case Nil
  then show ?case by simp
next
  case (Cons a align)
  show ?case
  proof (cases k)
    case 0
    then show ?thesis
      by (simp add: Let_def set_text_def new_element_def el_set_def split: option.splits)
  next
    case (Suc j)
    with Cons.prems have "j < length align" by simp
    from Cons.IH [OF this, of "Suc i"] Suc show ?thesis by (simp add: Let_def)
  qed
qed

lemma empty_cells_eq:
  "empty_cells n tr =
     Element (el_tag tr) (el_attrib tr) (el_text tr)
             (el_children tr @ replicate n (new_element ''td'')) (el_tail tr)"
proof (induction n arbitrary: tr)
  case 0
  then show ?case by simp
next
  case (Suc n)
  show ?case
    by (simp add: Suc.IH append_child_def replicate_append_same)
qed

lemma build_row_children:
  "el_children (TableProcessor_build_row self row parent align) =
     el_children parent @
       [Element ''tr'' [] None
          (build_cells self (if el_tag parent = ''thead'' then ''th'' else ''td'')
             (TableProcessor_split_row self row) 0 align) None]"
  by (simp add: TableProcessor_build_row_def Let_def append_child_def)

lemma build_row_tag:
  "el_tag (TableProcessor_build_row self row parent align) = el_tag parent"
  by (simp add: TableProcessor_build_row_def Let_def append_child_def)

lemma foldl_build_row:
  "el_tag (foldl (\<lambda>tb row. TableProcessor_build_row self (f row) tb align) tb0 rows) = el_tag tb0 \<and>
   el_children (foldl (\<lambda>tb row. TableProcessor_build_row self (f row) tb align) tb0 rows) =
     el_children tb0 @
       map (\<lambda>row. Element ''tr'' [] None
              (build_cells self (if el_tag tb0 = ''thead'' then ''th'' else ''td'')
                 (TableProcessor_split_row self (f row)) 0 align) None) rows"
proof (induction rows arbitrary: tb0)
  case Nil
  then show ?case by simp
next
  case (Cons r rows)
  show ?case
    by (simp add: Cons.IH build_row_children build_row_tag)
qed

text \<open>
  C10: every row that \<open>TableProcessor.run\<close> builds has exactly as many cells as the
  separator row has columns. A body row with fewer cells gets the empty string in the
  missing cells, the cells beyond the width are dropped, and a table without body rows
  gets one body row of \<open>td\<close> cells without text, one per column.
\<close>

theorem TableProcessor_run_row_width:
  assumes run: "TableProcessor_run self parent blocks = Inr (r, parent', blocks')"
  shows "\<exists>thead tbody.
      el_children parent' =
        el_children parent @ [Element ''table'' [] None [thead, tbody] None] \<and>
      (\<forall>tr \<in> set (el_children thead @ el_children tbody).
         el_tag tr = ''tr'' \<and> length (el_children tr) = length (separator self)) \<and>
      (let rows = TableProcessor_rows (split_on NL (hd blocks)) in
       if rows = [] then
         el_children tbody =
           [Element ''tr'' [] None
              (replicate (length (separator self)) (Element ''td'' [] None [] None)) None]
       else
         length (el_children tbody) = length rows \<and>
         (\<forall>k < length rows. \<forall>i < length (separator self).
            el_tag (el_children (el_children tbody ! k) ! i) = ''td'' \<and>
            el_text (el_children (el_children tbody ! k) ! i) =
              Some (let cells = TableProcessor_split_row self (strip_spaces (rows ! k))
                    in if i < length cells then strip_spaces (cells ! i) else [])))"
proof -
  from run obtain b where blocks: "blocks = b # blocks'"
    by (auto simp: TableProcessor_run_def Let_def split: list.splits)
  define block where "block = split_on NL b"
  define rows where "rows = TableProcessor_rows block"
  define align where "align = map align_of (separator self)"
  define thead where
    "thead = TableProcessor_build_row self (strip_spaces (hd block)) (new_element ''thead'') align"
  define tbody where
    "tbody = (if length rows = 0
              then TableProcessor_build_empty_row (new_element ''tbody'') align
              else foldl (\<lambda>tb row. TableProcessor_build_row self (strip_spaces row) tb align)
                     (new_element ''tbody'') rows)"
  have n: "length align = length (separator self)" by (simp add: align_def)
  from run have parent': "parent' = append_child parent (Element ''table'' [] None [thead, tbody] None)"
    by (auto simp: TableProcessor_run_def blocks Let_def block_def rows_def align_def
        thead_def tbody_def)
  have c1: "el_children parent' =
        el_children parent @ [Element ''table'' [] None [thead, tbody] None]"
    by (simp add: parent' append_child_def)
  have head: "el_children thead =
      [Element ''tr'' [] None
         (build_cells self ''th'' (TableProcessor_split_row self (strip_spaces (hd block))) 0 align)
         None]"
    by (simp add: thead_def build_row_children new_element_def)
  have body_empty: "el_children tbody =
      [Element ''tr'' [] None (replicate (length (separator self)) (Element ''td'' [] None [] None)) None]"
    if "rows = []"
    using that
    by (simp add: tbody_def TableProcessor_build_empty_row_def empty_cells_eq append_child_def
        new_element_def n)
  have body_rows: "el_children tbody =
      map (\<lambda>row. Element ''tr'' [] None
             (build_cells self ''td'' (TableProcessor_split_row self (strip_spaces row)) 0 align)
             None) rows"
    if "rows \<noteq> []"
    using that foldl_build_row [of self strip_spaces align "new_element ''tbody''" rows]
    by (simp add: tbody_def new_element_def)
  have c2: "\<forall>tr \<in> set (el_children thead @ el_children tbody).
         el_tag tr = ''tr'' \<and> length (el_children tr) = length (separator self)"
  proof (cases "rows = []")
    case True
    then show ?thesis by (simp add: head body_empty build_cells_length n)
  next
    case False
    then show ?thesis by (auto simp: head body_rows build_cells_length n)
  qed
  have c3: "let rows = TableProcessor_rows (split_on NL (hd blocks)) in
       if rows = [] then
         el_children tbody =
           [Element ''tr'' [] None
              (replicate (length (separator self)) (Element ''td'' [] None [] None)) None]
       else
         length (el_children tbody) = length rows \<and>
         (\<forall>k < length rows. \<forall>i < length (separator self).
            el_tag (el_children (el_children tbody ! k) ! i) = ''td'' \<and>
            el_text (el_children (el_children tbody ! k) ! i) =
              Some (let cells = TableProcessor_split_row self (strip_spaces (rows ! k))
                    in if i < length cells then strip_spaces (cells ! i) else []))"
  proof (cases "rows = []")
    case True
    then show ?thesis
      using body_empty by (simp add: blocks rows_def block_def)
  next
    case False
    have "el_tag (el_children (el_children tbody ! k) ! i) = ''td'' \<and>
          el_text (el_children (el_children tbody ! k) ! i) =
            Some (let cells = TableProcessor_split_row self (strip_spaces (rows ! k))
                  in if i < length cells then strip_spaces (cells ! i) else [])"
      if "k < length rows" "i < length (separator self)" for k i
      using that build_cells_nth [of i align self "''td''"
          "TableProcessor_split_row self (strip_spaces (rows ! k))" 0]
      by (simp add: body_rows [OF False] n Let_def)
    with False show ?thesis
      by (simp add: blocks rows_def [symmetric] block_def [symmetric] body_rows [OF False])
  qed
  from c1 c2 c3 show ?thesis by blast
qed

lemma ex_test: "TableProcessor_test (TableProcessor_init False) ex_block = (True, ex_self)"
  by code_simp

lemma ex_run:
  "TableProcessor_run ex_self (new_element ''div'') [ex_block] = Inr (PyNone, ex_table_out, [])"
  by code_simp

theorem TableProcessor_run_row_width_witness:
  "TableProcessor_run ex_self (new_element ''div'') [ex_block] = Inr (PyNone, ex_table_out, []) \<and>
   (\<exists>thead tbody.
      el_children ex_table_out =
        el_children (new_element ''div'') @ [Element ''table'' [] None [thead, tbody] None] \<and>
      (\<forall>tr \<in> set (el_children thead @ el_children tbody).
         el_tag tr = ''tr'' \<and> length (el_children tr) = length (separator ex_self)) \<and>
      (let rows = TableProcessor_rows (split_on NL (hd [ex_block])) in
       if rows = [] then
         el_children tbody =
           [Element ''tr'' [] None
              (replicate (length (separator ex_self)) (Element ''td'' [] None [] None)) None]
       else
         length (el_children tbody) = length rows \<and>
         (\<forall>k < length rows. \<forall>i < length (separator ex_self).
            el_tag (el_children (el_children tbody ! k) ! i) = ''td'' \<and>
            el_text (el_children (el_children tbody ! k) ! i) =
              Some (let cells = TableProcessor_split_row ex_self (strip_spaces (rows ! k))
                    in if i < length cells then strip_spaces (cells ! i) else []))))"
  by (rule conjI) (rule ex_run, rule TableProcessor_run_row_width [OF ex_run])

section \<open>Properties of the raw HTML extractor\<close>

lemma dropWhile_all: "\<forall>c \<in> set s. P c \<Longrightarrow> dropWhile P s = []"
  by (induction s) auto

lemma dropWhile_rest_all: "(\<forall>x \<in> set (dropWhile P s). P x) \<longleftrightarrow> (\<forall>c \<in> set s. P c)"
  by (induction s) auto

lemma strip_by_Nil: "strip_by P s = [] \<longleftrightarrow> (\<forall>c \<in> set s. P c)"
proof
  assume "strip_by P s = []"
  then show "\<forall>c \<in> set s. P c"
    by (simp add: strip_by_def rstrip_by_def lstrip_by_def dropWhile_rest_all)
next
  assume "\<forall>c \<in> set s. P c"
  then show "strip_by P s = []"
    by (simp add: strip_by_def rstrip_by_def lstrip_by_def dropWhile_all)
qed

lemma at_line_start_iff:
  "at_line_start s \<longleftrightarrow>
     offset s = 0 \<or>
     (offset s \<le> 3 \<and>
      (\<forall>c \<in> set (slice (rawdata s) (line_offset s) (line_offset s + offset s)). py_isspace c))"
  by (auto simp: at_line_start_def strip_def strip_by_Nil)

lemma handle_empty_tag_inraw: "inraw (handle_empty_tag d b s) = inraw s"
  by (simp add: handle_empty_tag_def Let_def store_def split: prod.splits)

text \<open>
  C5 (amended): for a start tag met outside raw content, \<open>handle_starttag\<close> begins
  a raw region exactly when the tag is not in \<open>empty_tags\<close>, is block-level, and
  the extractor is in tail mode or at the start of a line; the start of a line is offset
  0, or an offset of at most 3 behind whitespace only. So outside tail mode a block-level
  tag behind non-whitespace, or at an offset above 3, begins no raw region.
\<close>

theorem handle_starttag_raw_region:
  assumes "\<not> inraw s"
  shows "inraw (handle_starttag is_block_level t attrs s) =
           (t \<notin> set (empty_tags s) \<and> is_block_level t \<and> (intail s \<or> at_line_start s)) \<and>
         at_line_start s =
           (offset s = 0 \<or>
            (offset s \<le> 3 \<and>
             (\<forall>c \<in> set (slice (rawdata s) (line_offset s) (line_offset s + offset s)).
                py_isspace c))) \<and>
         (if inraw (handle_starttag is_block_level t attrs s) then
            stack (handle_starttag is_block_level t attrs s) = stack s @ [t] \<and>
            cache (handle_starttag is_block_level t attrs s) = cache s @ [starttag_text s] \<and>
            cleandoc (handle_starttag is_block_level t attrs s) = cleandoc s @ [[NL]]
          else
            stack (handle_starttag is_block_level t attrs s) = stack s \<and>
            (t \<notin> set (empty_tags s) \<longrightarrow>
               cache (handle_starttag is_block_level t attrs s) = cache s \<and>
               cleandoc (handle_starttag is_block_level t attrs s) =
                 cleandoc s @ [starttag_text s]))"
proof -
  have 1: "inraw (handle_starttag is_block_level t attrs s) =
           (t \<notin> set (empty_tags s) \<and> is_block_level t \<and> (intail s \<or> at_line_start s))"
    using assms
    by (auto simp: handle_starttag_def handle_startendtag_def handle_empty_tag_inraw Let_def
        clear_cdata_mode_def)
  have 3: "stack (handle_empty_tag d b s) = stack s" for d b
    by (simp add: handle_empty_tag_def Let_def store_def split: prod.splits)
  have 4: "(if inraw (handle_starttag is_block_level t attrs s) then
            stack (handle_starttag is_block_level t attrs s) = stack s @ [t] \<and>
            cache (handle_starttag is_block_level t attrs s) = cache s @ [starttag_text s] \<and>
            cleandoc (handle_starttag is_block_level t attrs s) = cleandoc s @ [[NL]]
          else
            stack (handle_starttag is_block_level t attrs s) = stack s \<and>
            (t \<notin> set (empty_tags s) \<longrightarrow>
               cache (handle_starttag is_block_level t attrs s) = cache s \<and>
               cleandoc (handle_starttag is_block_level t attrs s) =
                 cleandoc s @ [starttag_text s]))"
    unfolding 1 using assms
    by (auto simp: handle_starttag_def handle_startendtag_def 3 Let_def clear_cdata_mode_def)
  from 1 4 at_line_start_iff [of s] show ?thesis by blast
qed

theorem handle_starttag_raw_region_witness:
  "\<not> inraw ex_raw_start \<and> offset ex_raw_start = 2 \<and> at_line_start ex_raw_start \<and>
   inraw (handle_starttag ex_is_block_level ''p'' [] ex_raw_start) \<and>
   stack (handle_starttag ex_is_block_level ''p'' [] ex_raw_start) = [''p''] \<and>
   cache (handle_starttag ex_is_block_level ''p'' [] ex_raw_start) = [''<p>''] \<and>
   cleandoc (handle_starttag ex_is_block_level ''p'' [] ex_raw_start) = [''  '', [NL]]"
proof -
  have st: "ex_raw_start =
     \<lparr>rawdata = ''  <p>a</p>'', lineno = 1, offset = 2, starttag_text = ''<p>'',
      cdata_elem = None, empty_tags = [''hr''], inraw = False, intail = False, stack = [],
      cache = [], cleandoc = [''  ''], rawHtmlBlocks = []\<rparr>"
    by (simp add: ex_raw_start_def HTMLExtractor_init_def handle_data_def updatepos_def
        slice_def)
  have h: "\<not> inraw ex_raw_start"
    by (simp add: st)
  have ws: "\<forall>c \<in> set (slice (rawdata ex_raw_start) (line_offset ex_raw_start)
                       (line_offset ex_raw_start + offset ex_raw_start)). py_isspace c"
    by (simp add: st line_offset_def slice_def py_isspace_def)
  have f: "offset ex_raw_start = 2" "''p'' \<notin> set (empty_tags ex_raw_start)"
    "ex_is_block_level ''p''" "stack ex_raw_start = []" "cache ex_raw_start = []"
    "cleandoc ex_raw_start = [''  '']" "starttag_text ex_raw_start = ''<p>''"
    by (simp_all add: st ex_is_block_level_def)
  from handle_starttag_raw_region [OF h, of ex_is_block_level "''p''" "[]"] ws f h
  show ?thesis by simp
qed

lemma ex_at_div_eq:
  "ex_at_div =
     \<lparr>rawdata = ''<p>a</p><div>y</div>'', lineno = 1, offset = 8, starttag_text = ''<div>'',
      cdata_elem = None, empty_tags = [''hr''], inraw = False, intail = True, stack = [],
      cache = [], cleandoc = [[NL], get_placeholder 0, [NL, NL]],
      rawHtmlBlocks = [''<p>a</p>'']\<rparr>"
  by code_simp

text \<open>
  C5 as stated fails in tail mode: in \<open><p>a</p><div>y</div>\<close> the \<open>div\<close> tag
  stands at offset 8 behind non-whitespace and begins a raw region all the same.
\<close>

theorem handle_starttag_raw_region_counterexample:
  "ex_is_block_level ''div'' \<and> offset ex_at_div = 8 \<and> \<not> inraw ex_at_div \<and>
   slice (rawdata ex_at_div) (line_offset ex_at_div) (line_offset ex_at_div + offset ex_at_div) =
     ''<p>a</p>'' \<and>
   inraw (handle_starttag ex_is_block_level ''div'' [] ex_at_div) \<and>
   stack (handle_starttag ex_is_block_level ''div'' [] ex_at_div) = [''div''] \<and>
   cleandoc (handle_starttag ex_is_block_level ''div'' [] ex_at_div) =
     cleandoc ex_at_div @ [[NL]]"
  by code_simp

lemma line_offset_update:
  "line_offset (s\<lparr>cache := c\<rparr>) = line_offset s"
  "line_offset (s\<lparr>stack := st\<rparr>) = line_offset s"
  by (simp_all add: line_offset_def split: option.splits)

text \<open>
  C6 (amended): when an end tag closes a raw region, tail mode is on afterwards unless
  the text behind the end tag starts with a blank line (two line ends, each after spaces
  only), in which case it keeps its value; data with a newline clears tail mode; data
  goes to the raw cache only inside a raw region and to the clean document otherwise,
  also in tail mode; an empty tag (comment, reference, declaration) met in tail mode is
  appended to the raw cache.
\<close>

theorem tail_mode_after_raw_block:
  "(inraw s \<and> stack_after_endtag t (stack s) = [] \<longrightarrow>
      \<not> inraw (handle_endtag t s) \<and>
      intail (handle_endtag t s) =
        (intail s \<or>
         \<not> blank_line_re_match
             (drop (line_offset s + offset s + length (get_endtag_text t s)) (rawdata s)))) \<and>
   intail (handle_data d s) = (intail s \<and> NL \<notin> set d) \<and>
   (if inraw s
    then cache (handle_data d s) = cache s @ [d] \<and> cleandoc (handle_data d s) = cleandoc s
    else cache (handle_data d s) = cache s \<and> cleandoc (handle_data d s) = cleandoc s @ [d]) \<and>
   (intail s \<longrightarrow>
      intail (handle_empty_tag e b s) \<and>
      cache (handle_empty_tag e b s) = cache s @ [e] \<and>
      cleandoc (handle_empty_tag e b s) = cleandoc s)"
proof -
  have 1: "\<not> inraw (handle_endtag t s) \<and>
      intail (handle_endtag t s) =
        (intail s \<or>
         \<not> blank_line_re_match
             (drop (line_offset s + offset s + length (get_endtag_text t s)) (rawdata s)))"
    if "inraw s" "stack_after_endtag t (stack s) = []"
    using that
    by (simp add: handle_endtag_def Let_def store_def line_offset_update split: prod.splits)
  have 2: "intail (handle_data d s) = (intail s \<and> NL \<notin> set d)"
    by (auto simp: handle_data_def Let_def)
  have 3: "if inraw s
    then cache (handle_data d s) = cache s @ [d] \<and> cleandoc (handle_data d s) = cleandoc s
    else cache (handle_data d s) = cache s \<and> cleandoc (handle_data d s) = cleandoc s @ [d]"
    by (simp add: handle_data_def Let_def)
  have 4: "intail (handle_empty_tag e b s) \<and>
      cache (handle_empty_tag e b s) = cache s @ [e] \<and>
      cleandoc (handle_empty_tag e b s) = cleandoc s"
    if "intail s"
    using that by (simp add: handle_empty_tag_def)
  from 1 2 3 4 show ?thesis by blast
qed

theorem tail_mode_after_raw_block_witness:
  "inraw ex_blank_after \<and> stack_after_endtag ''p'' (stack ex_blank_after) = [] \<and>
   \<not> inraw (handle_endtag ''p'' ex_blank_after) \<and>
   \<not> intail (handle_endtag ''p'' ex_blank_after) \<and>
   intail ex_tail \<and>
   \<not> intail (handle_data (''x'' @ [NL]) ex_tail) \<and>
   cache (handle_empty_tag ''&amp;'' False ex_tail) = [''&amp;''] \<and>
   cleandoc (handle_empty_tag ''&amp;'' False ex_tail) = cleandoc ex_tail"
proof -
  have a: "inraw ex_blank_after" "stack_after_endtag ''p'' (stack ex_blank_after) = []"
    "\<not> intail ex_blank_after"
    "blank_line_re_match
       (drop (line_offset ex_blank_after + offset ex_blank_after +
              length (get_endtag_text ''p'' ex_blank_after)) (rawdata ex_blank_after))"
    by code_simp+
  have b: "intail ex_tail" "cache ex_tail = []" "\<not> inraw ex_tail"
    by code_simp+
  from tail_mode_after_raw_block [of ex_blank_after "''p''" "''x''" "''x''" False]
  have c: "\<not> inraw (handle_endtag ''p'' ex_blank_after) \<and>
           \<not> intail (handle_endtag ''p'' ex_blank_after)"
    using a by simp
  from tail_mode_after_raw_block [of ex_tail "''p''" "''x'' @ [NL]" "''&amp;''" False]
  have d: "\<not> intail (handle_data (''x'' @ [NL]) ex_tail) \<and>
           cache (handle_empty_tag ''&amp;'' False ex_tail) = [''&amp;''] \<and>
           cleandoc (handle_empty_tag ''&amp;'' False ex_tail) = cleandoc ex_tail"
    using b by simp
  from a b c d show ?thesis by simp
qed

text \<open>
  C6 as stated fails twice: at the end of \<open><p>a</p>\<close> nothing follows the end tag
  and tail mode is set; and in \<open><p>a</p>x\<close> the text \<open>x\<close>, handled in tail mode,
  goes to the clean document and not to the stash.
\<close>

theorem tail_mode_counterexample:
  "inraw ex_end_of_input \<and>
   drop (line_offset ex_end_of_input + offset ex_end_of_input +
         length (get_endtag_text ''p'' ex_end_of_input)) (rawdata ex_end_of_input) = [] \<and>
   \<not> inraw (handle_endtag ''p'' ex_end_of_input) \<and>
   intail (handle_endtag ''p'' ex_end_of_input) \<and>
   intail ex_tail \<and>
   cache (handle_data ''x'' ex_tail) = [] \<and>
   rawHtmlBlocks (handle_data ''x'' ex_tail) = [''<p>a</p>''] \<and>
   cleandoc (handle_data ''x'' ex_tail) = cleandoc ex_tail @ [''x'']"
  by code_simp

section \<open>Properties of the block processors\<close>

text \<open>
  C4 (amended): on a queue that is not empty, \<open>AbbrBlockprocessor.run\<close> returns a
  boolean: \<open>False\<close> when the block has no abbreviation, with the queue and the
  processor as they were, and \<open>True\<close> otherwise, with the head popped and the text
  before and behind the match pushed at the front where it is not blank.
  \<open>TableProcessor.run\<close> returns no boolean but \<open>None\<close>, having popped the head.
\<close>

theorem block_processor_run_result:
  assumes "blocks \<noteq> []" and "tblocks \<noteq> []"
  shows "(case AbbrBlockprocessor_RE_search (hd blocks) of
            None \<Rightarrow> AbbrBlockprocessor_run self parent blocks = Inr (PyBool False, self, blocks)
          | Some m \<Rightarrow>
              (\<exists>self'. AbbrBlockprocessor_run self parent blocks =
                 Inr (PyBool True, self',
                      (if strip (take (m_start m) (hd blocks)) \<noteq> []
                       then [rstrip_by (\<lambda>c. c = NL) (take (m_start m) (hd blocks))] else []) @
                      (if strip (drop (m_end m) (hd blocks)) \<noteq> []
                       then [lstrip_by (\<lambda>c. c = NL) (drop (m_end m) (hd blocks))] else []) @
                      tl blocks))) \<and>
         (\<exists>tparent'. TableProcessor_run tself tparent tblocks = Inr (PyNone, tparent', tl tblocks))"
proof -
  from assms(1) obtain b bs where blocks: "blocks = b # bs" by (cases blocks) auto
  from assms(2) obtain t ts where tblocks: "tblocks = t # ts" by (cases tblocks) auto
  have 1: "case AbbrBlockprocessor_RE_search (hd blocks) of
            None \<Rightarrow> AbbrBlockprocessor_run self parent blocks = Inr (PyBool False, self, blocks)
          | Some m \<Rightarrow>
              (\<exists>self'. AbbrBlockprocessor_run self parent blocks =
                 Inr (PyBool True, self',
                      (if strip (take (m_start m) (hd blocks)) \<noteq> []
                       then [rstrip_by (\<lambda>c. c = NL) (take (m_start m) (hd blocks))] else []) @
                      (if strip (drop (m_end m) (hd blocks)) \<noteq> []
                       then [lstrip_by (\<lambda>c. c = NL) (drop (m_end m) (hd blocks))] else []) @
                      tl blocks))"
    by (simp add: blocks AbbrBlockprocessor_run_def Let_def split: option.splits)
  have 2: "\<exists>tparent'. TableProcessor_run tself tparent tblocks = Inr (PyNone, tparent', tl tblocks)"
    by (simp add: tblocks TableProcessor_run_def Let_def)
  from 1 2 show ?thesis by blast
qed

theorem block_processor_run_result_witness:
  "[''plain text'', ''next''] \<noteq> [] \<and> [ex_block] \<noteq> [] \<and>
   AbbrBlockprocessor_RE_search ''plain text'' = None \<and>
   AbbrBlockprocessor_run ex_abbr None [''plain text'', ''next''] =
     Inr (PyBool False, ex_abbr, [''plain text'', ''next'']) \<and>
   (\<exists>tparent'. TableProcessor_run ex_self (new_element ''div'') [ex_block] =
      Inr (PyNone, tparent', []))"
proof -
  have n: "AbbrBlockprocessor_RE_search ''plain text'' = None" by code_simp
  have h1: "[''plain text'', ''next''] \<noteq> []" and h2: "[ex_block] \<noteq> []" by simp_all
  from block_processor_run_result [OF h1 h2, of ex_abbr None ex_self "new_element ''div''"] n
  show ?thesis by simp
qed

text \<open>
  C4 as stated fails for \<open>TableProcessor.run\<close>: after \<open>test\<close> has accepted the
  block, \<open>run\<close> builds the table and returns \<open>None\<close>, which is no boolean.
\<close>

theorem block_processor_run_result_counterexample:
  "TableProcessor_test (TableProcessor_init False) ex_block = (True, ex_self) \<and>
   TableProcessor_run ex_self (new_element ''div'') [ex_block] = Inr (PyNone, ex_table_out, [])"
  by code_simp

lemma ex_abbr_run:
  "AbbrBlockprocessor_run ex_abbr None [ex_abbr_block, ''next''] =
     Inr (PyBool True, \<lparr>abbrs = [(''HTML'', ''Hyper Text'')], use_last_abbr = True\<rparr>,
          [''The HTML spec'', ''after'', ''next''])"
  by code_simp

section \<open>Properties of the command line\<close>

text \<open>
  C9: \<open>parse_options\<close> on the empty argument list gives the output format
  \<open>xhtml\<close>, lazy ordered lists on, no extensions, and neither input nor output;
  \<open>-o html\<close> sets the output format to \<open>html\<close> and \<open>-n\<close> turns the lazy
  ordered lists off, and each leaves every other option at its default.
\<close>

theorem parse_options_defaults:
  "parse_options yaml_load [] = Inr (default_options, CRITICAL) \<and>
   opts_output_format default_options = ''xhtml'' \<and> opts_lazy_ol default_options \<and>
   opts_extensions default_options = [] \<and> opts_input default_options = None \<and>
   opts_output default_options = None \<and>
   parse_options yaml_load [''-o'', ''html''] =
     Inr (default_options\<lparr>opts_output_format := ''html''\<rparr>, CRITICAL) \<and>
   parse_options yaml_load [''-n''] = Inr (default_options\<lparr>opts_lazy_ol := False\<rparr>, CRITICAL)"
  by (simp add: parse_options_def get_default_values_def default_options_def match_abbrev_def
      short_opt_def takes_value_def process_def)

section \<open>Properties of the tokenizer\<close>

lemma find_pair_Some:
  "find_pair a b i r = Some j \<Longrightarrow>
     i \<le> j \<and> j - i + 2 \<le> length r \<and> r ! (j - i) = a \<and> r ! (j - i + 1) = b \<and>
     (\<forall>k. k < j - i \<longrightarrow> \<not> (r ! k = a \<and> r ! (k + 1) = b))"
proof (induction a b i r arbitrary: j rule: find_pair.induct)
  case (1 a b i c d r)
  show ?case
  proof (cases "c = a \<and> d = b")
    case True
    with "1.prems" show ?thesis by simp
  next
    case False
    with "1.prems" have rec: "find_pair a b (i + 1) (d # r) = Some j" by simp
    from "1.IH" [OF False rec] have ih:
      "i + 1 \<le> j" "j - (i + 1) + 2 \<le> length (d # r)"
      "(d # r) ! (j - (i + 1)) = a" "(d # r) ! (j - (i + 1) + 1) = b"
      "\<forall>k. k < j - (i + 1) \<longrightarrow> \<not> ((d # r) ! k = a \<and> (d # r) ! (k + 1) = b)"
      by auto
    from ih(1) have ji: "j - i = Suc (j - (i + 1))" by simp
    have "\<not> ((c # d # r) ! k = a \<and> (c # d # r) ! (k + 1) = b)" if "k < j - i" for k
    proof (cases k)
      case 0
      with False show ?thesis by simp
    next
      case (Suc k')
      with that ji have "k' < j - (i + 1)" by simp
      with ih(5) Suc show ?thesis by simp
    qed
    with ih ji show ?thesis by simp
  qed
qed simp_all

lemma find_pair_None:
  "find_pair a b i r = None \<Longrightarrow> k + 1 < length r \<Longrightarrow> \<not> (r ! k = a \<and> r ! (k + 1) = b)"
proof (induction a b i r arbitrary: k rule: find_pair.induct)
  case (1 a b i c d r)
  from "1.prems"(1) have ne: "\<not> (c = a \<and> d = b)" by (auto split: if_splits)
  with "1.prems"(1) have rec: "find_pair a b (i + 1) (d # r) = None" by simp
  show ?case
  proof (cases k)
    case 0
    with ne show ?thesis by simp
  next
    case (Suc k')
    with "1.prems"(2) have "k' + 1 < length (d # r)" by simp
    from "1.IH" [OF ne rec this] Suc show ?thesis by simp
  qed
qed simp_all

lemma piclose_search_Some:
  assumes "piclose_search s pos = Some (j, e)"
  shows "e = j + 2" "pos \<le> j" "e \<le> length s" "s ! j = CHR ''?''" "s ! (j + 1) = CHR ''>''"
    "\<forall>k. pos \<le> k \<and> k < j \<longrightarrow> \<not> (s ! k = CHR ''?'' \<and> s ! (k + 1) = CHR ''>'')"
proof -
  from assms have f: "find_pair (CHR ''?'') (CHR ''>'') pos (drop pos s) = Some j" and e: "e = j + 2"
    by (auto simp: piclose_search_def)
  note fp = find_pair_Some [OF f]
  from fp have len: "j - pos + 2 \<le> length s - pos" and pj: "pos \<le> j" by simp_all
  show "e = j + 2" by (rule e)
  show "pos \<le> j" by (rule pj)
  from len pj show "e \<le> length s" unfolding e by simp
  from fp len pj show "s ! j = CHR ''?''" by simp
  from fp len pj show "s ! (j + 1) = CHR ''>''" by simp
  show "\<forall>k. pos \<le> k \<and> k < j \<longrightarrow> \<not> (s ! k = CHR ''?'' \<and> s ! (k + 1) = CHR ''>'')"
  proof (intro allI impI)
    fix k assume k: "pos \<le> k \<and> k < j"
    then have "k - pos < j - pos" by arith
    with fp have "\<not> (drop pos s ! (k - pos) = CHR ''?'' \<and> drop pos s ! (k - pos + 1) = CHR ''>'')"
      by blast
    moreover from k len pj have "pos + (k - pos) = k" "pos + (k - pos + 1) = k + 1"
      "k + 1 < length s" by arith+
    ultimately show "\<not> (s ! k = CHR ''?'' \<and> s ! (k + 1) = CHR ''>'')"
      using len pj k by simp
  qed
qed

lemma piclose_search_None:
  assumes "piclose_search s pos = None" "pos \<le> k" "k + 1 < length s"
  shows "\<not> (s ! k = CHR ''?'' \<and> s ! (k + 1) = CHR ''>'')"
proof -
  from assms(1) have f: "find_pair (CHR ''?'') (CHR ''>'') pos (drop pos s) = None"
    by (simp add: piclose_search_def)
  from assms(2,3) have "k - pos + 1 < length (drop pos s)" by simp
  from find_pair_None [OF f this] assms(2,3) show ?thesis by (simp add: nth_drop)
qed

lemma entityref_match_Some:
  assumes "entityref_match r p = Some (name, e)"
  shows "slice r p e = ''&'' @ name @ '';''" "name \<noteq> []" "is_ascii_alpha (hd name)"
    "\<forall>c \<in> set (tl name). is_entity_char c"
proof -
  from assms obtain c rest r' where
    d: "drop p r = CHR ''&'' # c # rest" and al: "is_ascii_alpha c" and
    name: "name = c # takeWhile is_entity_char rest" and
    dw: "dropWhile is_entity_char rest = CHR '';'' # r'" and e: "e = p + length name + 2"
    by (auto simp: entityref_match_def Let_def split: list.splits if_splits)
  have "rest = takeWhile is_entity_char rest @ CHR '';'' # r'"
    using dw takeWhile_dropWhile_id [of is_entity_char rest] by simp
  with d name have dr: "drop p r = (CHR ''&'' # name @ '';'') @ r'" by simp
  have "slice r p e = take (e - p) (drop p r)" by (simp add: slice_def drop_take)
  also have "\<dots> = CHR ''&'' # name @ '';''" unfolding dr e by simp
  finally show "slice r p e = ''&'' @ name @ '';''" by simp
  from name show "name \<noteq> []" by simp
  from name al show "is_ascii_alpha (hd name)" by simp
  from name show "\<forall>c \<in> set (tl name). is_entity_char c" by (auto dest: set_takeWhileD)
qed

text \<open>
  C7: a processing instruction is closed only at \<open>?>\<close>, the first one behind its
  start, and never at a bare \<open>>\<close>; without one it is not closed. A named reference
  is recognised only with its semicolon. \<open>incomplete\<close> matches exactly where
  \<open>entityref\<close> does, so that behind a reference without semicolon the tokenizer never
  takes the incomplete branch: it hands the ampersand to \<open>handle_data\<close> and goes on,
  or, at the last character, leaves the loop with the ampersand unread.
\<close>

theorem tokenizer_terminators:
  "(parse_pi i s = (Some e, s') \<longrightarrow>
      i + 4 \<le> e \<and> e \<le> length (rawdata s) \<and>
      rawdata s ! (e - 2) = CHR ''?'' \<and> rawdata s ! (e - 1) = CHR ''>'' \<and>
      s' = handle_pi (slice (rawdata s) (i + 2) (e - 2)) s \<and>
      (\<forall>k. i + 2 \<le> k \<and> k < e - 2 \<longrightarrow>
         \<not> (rawdata s ! k = CHR ''?'' \<and> rawdata s ! (k + 1) = CHR ''>''))) \<and>
   (parse_pi i s = (None, s') \<longrightarrow>
      s' = s \<and>
      (\<forall>k. i + 2 \<le> k \<and> k + 1 < length (rawdata s) \<longrightarrow>
         \<not> (rawdata s ! k = CHR ''?'' \<and> rawdata s ! (k + 1) = CHR ''>''))) \<and>
   (entityref_match r p = Some (name, q) \<longrightarrow>
      slice r p q = ''&'' @ name @ '';'' \<and> name \<noteq> []) \<and>
   incomplete_match r p = entityref_match r p \<and>
   (entityref_match (rawdata s) i = None \<longrightarrow>
      goahead_amp at_end i s =
        (if i + 1 < length (rawdata s)
         then Continue (i + 1) (updatepos i (i + 1) (handle_data ''&'' s))
         else Break i s))"
proof -
  have 1: "i + 4 \<le> e \<and> e \<le> length (rawdata s) \<and>
      rawdata s ! (e - 2) = CHR ''?'' \<and> rawdata s ! (e - 1) = CHR ''>'' \<and>
      s' = handle_pi (slice (rawdata s) (i + 2) (e - 2)) s \<and>
      (\<forall>k. i + 2 \<le> k \<and> k < e - 2 \<longrightarrow>
         \<not> (rawdata s ! k = CHR ''?'' \<and> rawdata s ! (k + 1) = CHR ''>''))"
    if pp: "parse_pi i s = (Some e, s')"
  proof -
    from pp obtain j where ps: "piclose_search (rawdata s) (i + 2) = Some (j, e)"
      and s': "s' = handle_pi (slice (rawdata s) (i + 2) j) s"
      by (auto simp: parse_pi_def split: option.splits)
    note f = piclose_search_Some [OF ps]
    from f(1) have j: "j = e - 2" "e - 1 = j + 1" by simp_all
    from f s' show ?thesis unfolding j by simp
  qed
  have 2: "s' = s \<and>
      (\<forall>k. i + 2 \<le> k \<and> k + 1 < length (rawdata s) \<longrightarrow>
         \<not> (rawdata s ! k = CHR ''?'' \<and> rawdata s ! (k + 1) = CHR ''>''))"
    if pp: "parse_pi i s = (None, s')"
  proof -
    from pp have ps: "piclose_search (rawdata s) (i + 2) = None" and s': "s' = s"
      by (auto simp: parse_pi_def split: option.splits)
    from piclose_search_None [OF ps] s' show ?thesis by blast
  qed
  have 3: "slice r p q = ''&'' @ name @ '';'' \<and> name \<noteq> []"
    if "entityref_match r p = Some (name, q)"
    using entityref_match_Some [OF that] by simp
  have 4: "incomplete_match r p = entityref_match r p"
    by (simp add: incomplete_match_def)
  have 5: "goahead_amp at_end i s =
        (if i + 1 < length (rawdata s)
         then Continue (i + 1) (updatepos i (i + 1) (handle_data ''&'' s))
         else Break i s)"
    if "entityref_match (rawdata s) i = None"
    using that by (simp add: goahead_amp_def incomplete_match_def)
  from 1 2 3 4 5 show ?thesis by blast
qed

theorem tokenizer_terminators_witness:
  "parse_pi 0 ex_pi = (Some 20, handle_pi ''php echo 1 > 0; '' ex_pi) \<and>
   rawdata ex_pi ! 18 = CHR ''?'' \<and> rawdata ex_pi ! 19 = CHR ''>'' \<and>
   rawdata ex_pi ! 13 = CHR ''>'' \<and>
   entityref_match (rawdata ex_entity) 9 = Some (''amp'', 14) \<and>
   slice (rawdata ex_entity) 9 14 = ''&amp;'' \<and>
   entityref_match (rawdata ex_entity) 2 = None \<and>
   incomplete_match (rawdata ex_entity) 2 = None \<and>
   goahead_amp False 2 ex_entity =
     Continue 3 (updatepos 2 3 (handle_data ''&'' ex_entity)) \<and>
   cleandoc (handle_data ''&'' ex_entity) = [''a '', ''&'']"
proof -
  have st: "ex_entity =
     \<lparr>rawdata = ''a &amp b &amp; c'', lineno = 1, offset = 2, starttag_text = [],
      cdata_elem = None, empty_tags = [''hr''], inraw = False, intail = False, stack = [],
      cache = [], cleandoc = [''a ''], rawHtmlBlocks = []\<rparr>"
    by (simp add: ex_entity_def HTMLExtractor_init_def handle_data_def updatepos_def slice_def)
  have a: "parse_pi 0 ex_pi = (Some 20, handle_pi ''php echo 1 > 0; '' ex_pi)"
    by (simp add: parse_pi_def piclose_search_def ex_pi_def HTMLExtractor_init_def slice_def)
  have b: "entityref_match (rawdata ex_entity) 9 = Some (''amp'', 14)"
    by (simp add: entityref_match_def st is_ascii_alpha_def
        is_entity_char_def is_ascii_digit_def)
  have c: "entityref_match (rawdata ex_entity) 2 = None"
    by (simp add: entityref_match_def st is_ascii_alpha_def
        is_entity_char_def is_ascii_digit_def)
  have d: "rawdata ex_pi ! 13 = CHR ''>''" "length (rawdata ex_entity) = 16"
    "cleandoc (handle_data ''&'' ex_entity) = [''a '', ''&'']"
    by (simp_all add: ex_pi_def st HTMLExtractor_init_def handle_data_def)
  note T = tokenizer_terminators [of 0 ex_pi 20 "handle_pi ''php echo 1 > 0; '' ex_pi"
      "rawdata ex_entity" 9 "''amp''" 14]
  note U = tokenizer_terminators [of 2 ex_entity 0 ex_entity "rawdata ex_entity" 2 "''amp''" 0 False]
  from T a b have t: "rawdata ex_pi ! 18 = CHR ''?'' \<and> rawdata ex_pi ! 19 = CHR ''>'' \<and>
      slice (rawdata ex_entity) 9 14 = ''&amp;''" by simp
  from U c d have u: "incomplete_match (rawdata ex_entity) 2 = None \<and>
      goahead_amp False 2 ex_entity = Continue 3 (updatepos 2 3 (handle_data ''&'' ex_entity))"
    by simp
  from a b c d t u show ?thesis by simp
qed

section \<open>Properties of the registry\<close>

lemma run_ops_snoc:
  "run_ops r (ops @ [op]) = (case run_ops r ops of Inl e \<Rightarrow> Inl e | Inr r' \<Rightarrow> apply_op op r')"
  by (induction ops arbitrary: r) (auto split: sum.splits)

lemma last_registered_from_snoc:
  "last_registered_from k (ops @ [op]) name acc =
     (case op of
        Register item n priority \<Rightarrow>
          if n = name then k + length ops + 1 else last_registered_from k ops name acc
      | _ \<Rightarrow> last_registered_from k ops name acc)"
  by (induction k ops name acc rule: last_registered_from.induct)
     (auto split: registry_op.splits)

lemma last_registered_from_le:
  "last_registered_from k ops name acc \<le> max acc (k + length ops)"
  by (induction k ops name acc rule: last_registered_from.induct) (auto simp: max_def)

lemma last_registered_le: "last_registered ops name \<le> length ops"
  using last_registered_from_le [of 0 ops name 0] by (simp add: last_registered_def)

lemma last_registered_snoc:
  "last_registered (ops @ [op]) name =
     (case op of
        Register item n priority \<Rightarrow> if n = name then length ops + 1 else last_registered ops name
      | _ \<Rightarrow> last_registered ops name)"
  by (simp add: last_registered_def last_registered_from_snoc split: registry_op.splits)

lemma registration_from_snoc:
  "registration_from (ops @ [op]) name acc =
     (case op of
        Register item n priority \<Rightarrow>
          if n = name then Some (item, priority) else registration_from ops name acc
      | Deregister n strict \<Rightarrow> if n = name then None else registration_from ops name acc
      | Read \<Rightarrow> registration_from ops name acc)"
  by (induction ops name acc rule: registration_from.induct)
     (auto split: registry_op.splits)

lemma registration_snoc:
  "registration (ops @ [op]) name =
     (case op of
        Register item n priority \<Rightarrow> if n = name then Some (item, priority) else registration ops name
      | Deregister n strict \<Rightarrow> if n = name then None else registration ops name
      | Read \<Rightarrow> registration ops name)"
  by (simp add: registration_def registration_from_snoc split: registry_op.splits)

lemma set_insert_desc: "set (insert_desc x ys) = insert x (set ys)"
  by (induction ys) auto

lemma set_sort_desc: "set (sort_desc xs) = set xs"
  by (induction xs) (simp_all add: sort_desc_def set_insert_desc)

lemma length_insert_desc: "length (insert_desc x ys) = Suc (length ys)"
  by (induction ys) auto

lemma length_sort_desc: "length (sort_desc xs) = length xs"
  by (induction xs) (simp_all add: sort_desc_def length_insert_desc)

lemma distinct_insert_desc:
  "distinct (map f (insert_desc x ys)) \<longleftrightarrow> f x \<notin> f ` set ys \<and> distinct (map f ys)"
  by (induction ys) (auto simp: set_insert_desc)

lemma distinct_sort_desc: "distinct (map f (sort_desc xs)) \<longleftrightarrow> distinct (map f xs)"
  by (induction xs) (simp_all add: sort_desc_def distinct_insert_desc set_sort_desc [unfolded sort_desc_def])

lemma sorted_insert_desc:
  "sorted_wrt (\<lambda>a b. e_priority b \<le> e_priority a) ys \<Longrightarrow>
   sorted_wrt (\<lambda>a b. e_priority b \<le> e_priority a) (insert_desc x ys)"
  by (induction ys) (auto simp: set_insert_desc)

lemma sorted_sort_desc: "sorted_wrt (\<lambda>a b. e_priority b \<le> e_priority a) (sort_desc xs)"
  by (induction xs) (simp_all add: sort_desc_def sorted_insert_desc)

lemma stable_insert_desc:
  assumes "sorted_wrt (\<lambda>a b. e_priority a = e_priority b \<longrightarrow> T a b) ys"
    and "\<forall>y \<in> set ys. e_priority x = e_priority y \<longrightarrow> T x y"
  shows "sorted_wrt (\<lambda>a b. e_priority a = e_priority b \<longrightarrow> T a b) (insert_desc x ys)"
  using assms by (induction ys) (auto simp: set_insert_desc)

lemma stable_sort_desc:
  "sorted_wrt (\<lambda>a b. e_priority a = e_priority b \<longrightarrow> T a b) xs \<Longrightarrow>
   sorted_wrt (\<lambda>a b. e_priority a = e_priority b \<longrightarrow> T a b) (sort_desc xs)"
proof (induction xs)
  case Nil
  then show ?case by (simp add: sort_desc_def)
next
  case (Cons x xs)
  then have "sorted_wrt (\<lambda>a b. e_priority a = e_priority b \<longrightarrow> T a b) (sort_desc xs)"
    and "\<forall>y \<in> set (sort_desc xs). e_priority x = e_priority y \<longrightarrow> T x y"
    by (simp_all add: set_sort_desc)
  then have "sorted_wrt (\<lambda>a b. e_priority a = e_priority b \<longrightarrow> T a b)
               (insert_desc x (sort_desc xs))"
    by (rule stable_insert_desc)
  then show ?case by (simp add: sort_desc_def)
qed

lemma sorted_wrt_both:
  "sorted_wrt P xs \<Longrightarrow> sorted_wrt Q xs \<Longrightarrow> (\<And>a b. P a b \<Longrightarrow> Q a b \<Longrightarrow> R a b) \<Longrightarrow>
   sorted_wrt R xs"
  by (induction xs) auto

lemma sorted_wrt_filter_keep: "sorted_wrt P xs \<Longrightarrow> sorted_wrt P (filter Q xs)"
  by (induction xs) auto

lemma index_of_distinct:
  "distinct xs \<Longrightarrow> k < length xs \<Longrightarrow> index_of (xs ! k) xs = Some k"
proof (induction xs arbitrary: k)
  case Nil
  then show ?case by simp
next
  case (Cons x xs)
  show ?case
  proof (cases k)
    case 0
    then show ?thesis by simp
  next
    case (Suc j)
    with Cons.prems have "j < length xs" "xs ! j \<noteq> x" by auto
    with Cons Suc show ?thesis by simp
  qed
qed

lemma length_filter_distinct:
  "distinct (map f xs) \<Longrightarrow> x \<in> set xs \<Longrightarrow>
   Suc (length (filter (\<lambda>e. f e \<noteq> f x) xs)) = length xs"
proof (induction xs)
  case Nil
  then show ?case by simp
next
  case (Cons y ys)
  show ?case
  proof (cases "f y = f x")
    case True
    with Cons.prems have "\<forall>e \<in> set ys. f e \<noteq> f x" by (auto simp: image_iff)
    then have "filter (\<lambda>e. f e \<noteq> f x) ys = ys" by (simp add: filter_id_conv)
    with True show ?thesis by simp
  next
    case False
    with Cons show ?thesis by auto
  qed
qed

lemma registry_inv_init: "registry_inv [] Registry_init"
  by (simp add: registry_inv_def Registry_init_def registration_def)

lemma registry_inv_register:
  assumes "registry_inv ops r"
  shows "registry_inv (ops @ [Register item name priority]) (register item name priority r)"
proof -
  let ?ops = "ops @ [Register item name priority]"
  let ?rest = "filter (\<lambda>e. e_name e \<noteq> name) (priority_list r)"
  from assms have d: "distinct (map e_name (priority_list r))"
    and t: "sorted_wrt (\<lambda>a b. e_priority a = e_priority b \<longrightarrow>
                    last_registered ops (e_name b) < last_registered ops (e_name a))
              (priority_list r)"
    and m: "\<forall>n i p. (n, i, p) \<in> set (priority_list r) \<longleftrightarrow> registration ops n = Some (i, p)"
    by (simp_all add: registry_inv_def)
  have 1: "distinct (map e_name ((name, item, priority) # ?rest))"
    using d by (auto simp: distinct_map_filter e_name_def)
  have "sorted_wrt (\<lambda>a b. e_priority a = e_priority b \<longrightarrow>
                    last_registered ops (e_name b) < last_registered ops (e_name a)) ?rest"
    using t by (rule sorted_wrt_filter_keep)
  then have "sorted_wrt (\<lambda>a b. e_priority a = e_priority b \<longrightarrow>
                    last_registered ?ops (e_name b) < last_registered ?ops (e_name a)) ?rest"
    by (rule sorted_wrt_mono_rel [rotated]) (auto simp: last_registered_snoc)
  moreover have "last_registered ?ops (e_name y) < last_registered ?ops name"
    if "y \<in> set ?rest" for y
    using that last_registered_le [of ops "e_name y"] by (auto simp: last_registered_snoc)
  ultimately have 2: "sorted_wrt (\<lambda>a b. e_priority a = e_priority b \<longrightarrow>
                    last_registered ?ops (e_name b) < last_registered ?ops (e_name a))
                  ((name, item, priority) # ?rest)"
    by (auto simp: e_name_def)
  have 3: "\<forall>n i p. (n, i, p) \<in> set ((name, item, priority) # ?rest) \<longleftrightarrow>
             registration ?ops n = Some (i, p)"
    using m by (auto simp: registration_snoc e_name_def)
  from 1 2 3 show ?thesis by (simp add: registry_inv_def register_def)
qed

lemma registry_inv_deregister:
  assumes "registry_inv ops r" and "deregister name strict r = Inr r'"
  shows "registry_inv (ops @ [Deregister name strict]) r'"
proof (cases "name \<in> set (map e_name (priority_list r))")
  case True
  let ?ops = "ops @ [Deregister name strict]"
  let ?rest = "filter (\<lambda>e. e_name e \<noteq> name) (priority_list r)"
  from True assms(2) have r': "r' = r\<lparr>priority_list := ?rest, is_sorted := False\<rparr>"
    by (simp add: deregister_def)
  from assms(1) have d: "distinct (map e_name (priority_list r))"
    and t: "sorted_wrt (\<lambda>a b. e_priority a = e_priority b \<longrightarrow>
                    last_registered ops (e_name b) < last_registered ops (e_name a))
              (priority_list r)"
    and m: "\<forall>n i p. (n, i, p) \<in> set (priority_list r) \<longleftrightarrow> registration ops n = Some (i, p)"
    by (simp_all add: registry_inv_def)
  have 1: "distinct (map e_name ?rest)" using d by (simp add: distinct_map_filter)
  have 2: "sorted_wrt (\<lambda>a b. e_priority a = e_priority b \<longrightarrow>
                    last_registered ?ops (e_name b) < last_registered ?ops (e_name a)) ?rest"
    using sorted_wrt_filter_keep [OF t] by (simp add: last_registered_snoc)
  have 3: "\<forall>n i p. (n, i, p) \<in> set ?rest \<longleftrightarrow> registration ?ops n = Some (i, p)"
    using m by (auto simp: registration_snoc e_name_def)
  from 1 2 3 show ?thesis by (simp add: registry_inv_def r')
next
  case False
  with assms(2) have r': "r' = r" by (simp add: deregister_def split: if_splits)
  from assms(1) False have "registration ops name = None"
    by (cases "registration ops name") (force simp: registry_inv_def e_name_def image_iff)+
  with assms(1) show ?thesis
    by (auto simp: registry_inv_def r' last_registered_snoc registration_snoc)
qed

lemma registry_inv_sort:
  assumes "registry_inv ops r"
  shows "registry_inv (ops @ [Read]) (sort_registry r)"
proof (cases "is_sorted r")
  case True
  with assms show ?thesis
    by (auto simp: registry_inv_def sort_registry_def last_registered_snoc registration_snoc)
next
  case False
  from assms have d: "distinct (map e_name (priority_list r))"
    and t: "sorted_wrt (\<lambda>a b. e_priority a = e_priority b \<longrightarrow>
                    last_registered ops (e_name b) < last_registered ops (e_name a))
              (priority_list r)"
    and m: "\<forall>n i p. (n, i, p) \<in> set (priority_list r) \<longleftrightarrow> registration ops n = Some (i, p)"
    by (simp_all add: registry_inv_def)
  from False d stable_sort_desc [OF t] m show ?thesis
    by (simp add: registry_inv_def sort_registry_def distinct_sort_desc sorted_sort_desc
        set_sort_desc last_registered_snoc registration_snoc)
qed

lemma registry_inv_run:
  "run_ops Registry_init ops = Inr r \<Longrightarrow> registry_inv ops r"
proof (induction ops arbitrary: r rule: rev_induct)
  case Nil
  then show ?case using registry_inv_init by simp
next
  case (snoc op ops)
  from snoc.prems obtain r0 where r0: "run_ops Registry_init ops = Inr r0"
    and ap: "apply_op op r0 = Inr r"
    by (auto simp: run_ops_snoc split: sum.splits)
  from snoc.IH [OF r0] have inv: "registry_inv ops r0" .
  show ?case
  proof (cases op)
    case (Register item name priority)
    with ap inv registry_inv_register show ?thesis by auto
  next
    case (Deregister name strict)
    with ap inv registry_inv_deregister show ?thesis by auto
  next
    case Read
    with ap inv registry_inv_sort show ?thesis by auto
  qed
qed

text \<open>
  C3: after any sequence of \<open>register\<close>, \<open>deregister\<close> and reads that raises no
  error, iteration yields the triples sorted by priority descending, with the later
  registration first among equal priorities; the names are distinct and the triples are
  those of the last registration of each name that was not deregistered after it;
  \<open>get_index_for_name\<close> of the name at place \<open>k\<close> of the iteration is \<open>k\<close>; and
  registering a name that is present again leaves the length as it was.
\<close>

theorem registry_ordering:
  assumes "run_ops Registry_init ops = Inr r"
  shows "sorted_wrt (precedes ops) (iterate r) \<and>
         distinct (map e_name (iterate r)) \<and>
         (\<forall>n i p. (n, i, p) \<in> set (iterate r) \<longleftrightarrow> registration ops n = Some (i, p)) \<and>
         (\<forall>k < length (iterate r). get_index_for_name (e_name (iterate r ! k)) r = Inr k) \<and>
         (\<forall>e \<in> set (iterate r). \<forall>item priority.
            registry_len (register item (e_name e) priority r) = registry_len r)"
proof -
  from registry_inv_sort [OF registry_inv_run [OF assms]]
  have inv: "registry_inv (ops @ [Read]) (sort_registry r)" .
  have so: "is_sorted (sort_registry r)" by (simp add: sort_registry_def)
  from inv so have d: "distinct (map e_name (iterate r))"
    and t: "sorted_wrt (\<lambda>a b. e_priority a = e_priority b \<longrightarrow>
                    last_registered ops (e_name b) < last_registered ops (e_name a)) (iterate r)"
    and g: "sorted_wrt (\<lambda>a b. e_priority b \<le> e_priority a) (iterate r)"
    and m: "\<forall>n i p. (n, i, p) \<in> set (iterate r) \<longleftrightarrow> registration ops n = Some (i, p)"
    by (simp_all add: registry_inv_def iterate_def last_registered_snoc registration_snoc)
  have 1: "sorted_wrt (precedes ops) (iterate r)"
    using g t by (rule sorted_wrt_both) (auto simp: precedes_def)
  have 4: "get_index_for_name (e_name (iterate r ! k)) r = Inr k" if "k < length (iterate r)" for k
    using index_of_distinct [OF d, of k] that by (simp add: get_index_for_name_def)
  have len: "length (priority_list r) = length (iterate r)"
    by (simp add: iterate_def sort_registry_def length_sort_desc)
  have names: "set (priority_list r) = set (iterate r)"
    by (simp add: iterate_def sort_registry_def set_sort_desc)
  have d0: "distinct (map e_name (priority_list r))"
    using d by (simp add: iterate_def sort_registry_def distinct_sort_desc split: if_splits)
  have 5: "registry_len (register item (e_name e) priority r) = registry_len r"
    if "e \<in> set (iterate r)" for e item priority
  proof -
    from that names have "e \<in> set (priority_list r)" by simp
    from length_filter_distinct [OF d0 this] len show ?thesis
      by (simp add: registry_len_def iterate_def sort_registry_def register_def length_sort_desc)
  qed
  from 1 d m 4 5 show ?thesis by blast
qed

lemma ex_registry_run: "run_ops Registry_init ex_registry_ops = Inr ex_registry"
  by (simp add: ex_registry_ops_def ex_registry_def Registry_init_def register_def
      deregister_def sort_registry_def sort_desc_def e_name_def e_priority_def)

lemma ex_registry_iterate:
  "iterate ex_registry = [(''c'', ''C'', 41 / 2), (''b'', ''B2'', 20), (''a'', ''A'', 20)]"
  by (simp add: ex_registry_def iterate_def sort_registry_def sort_desc_def e_priority_def)

theorem registry_ordering_witness:
  "run_ops Registry_init ex_registry_ops = Inr ex_registry \<and>
   iterate ex_registry = [(''c'', ''C'', 41 / 2), (''b'', ''B2'', 20), (''a'', ''A'', 20)] \<and>
   sorted_wrt (precedes ex_registry_ops) (iterate ex_registry) \<and>
   distinct (map e_name (iterate ex_registry)) \<and>
   get_index_for_name ''b'' ex_registry = Inr 1 \<and>
   registry_len (register ''X'' ''a'' 5 ex_registry) = registry_len ex_registry"
proof -
  note T = registry_ordering [OF ex_registry_run]
  from T have a: "sorted_wrt (precedes ex_registry_ops) (iterate ex_registry)"
    and b: "distinct (map e_name (iterate ex_registry))" by blast+
  from T have "\<forall>k < length (iterate ex_registry).
      get_index_for_name (e_name (iterate ex_registry ! k)) ex_registry = Inr k" by blast
  moreover have "(1 :: nat) < length (iterate ex_registry)" by (simp add: ex_registry_iterate)
  ultimately have "get_index_for_name (e_name (iterate ex_registry ! 1)) ex_registry = Inr 1"
    by blast
  then have c: "get_index_for_name ''b'' ex_registry = Inr 1"
    by (simp add: ex_registry_iterate e_name_def)
  from T have "\<forall>e \<in> set (iterate ex_registry). \<forall>item priority.
      registry_len (register item (e_name e) priority ex_registry) = registry_len ex_registry"
    by blast
  then have "registry_len (register ''X'' (e_name (''a'', ''A'', 20 :: rat)) 5 ex_registry) =
      registry_len ex_registry"
    by (simp add: ex_registry_iterate)
  then have d: "registry_len (register ''X'' ''a'' 5 ex_registry) = registry_len ex_registry"
    by (simp add: e_name_def)
  from ex_registry_run ex_registry_iterate a b c d show ?thesis by simp
qed

section \<open>Properties of the inline processor\<close>

lemma concat_map_singleton: "(\<And>x. x \<in> set xs \<Longrightarrow> f x = [x]) \<Longrightarrow> concat (map f xs) = xs"
  by (induction xs) auto

lemma expand_slot_atomic: "atomic_slot x \<Longrightarrow> expand_slot procs ancestors x = (x, [])"
  by (cases "(procs, ancestors, x)" rule: expand_slot.cases) auto

lemma run_inline_all_atomic: "all_atomic n \<Longrightarrow> run_inline fuel procs ancestors n = [n]"
proof (induction fuel arbitrary: n ancestors)
  case 0
  then show ?case by simp
next
  case (Suc fuel)
  obtain t a x c l where n: "n = Node t a x c l" by (cases n)
  from Suc.prems n have ax: "atomic_slot x" and al: "atomic_slot l"
    and ac: "\<And>k. k \<in> set c \<Longrightarrow> all_atomic k"
    by (auto simp: list_all_iff)
  have "concat (map (run_inline fuel procs (ancestors @ [t])) c) = c"
    by (rule concat_map_singleton) (simp add: Suc.IH ac)
  then show ?case by (simp add: n expand_slot_atomic [OF ax] expand_slot_atomic [OF al])
qed

lemma run_inline_shape:
  "\<exists>x' c' l' sibs. run_inline fuel procs ancestors (Node t a x c l) = Node t a x' c' l' # sibs \<and>
     (atomic_slot x \<longrightarrow> x' = x) \<and> (atomic_slot l \<longrightarrow> l' = l \<and> sibs = [])"
proof (cases fuel)
  case 0
  then show ?thesis by simp
next
  case (Suc f)
  then show ?thesis
    by (auto simp: Let_def expand_slot_atomic split: prod.splits)
qed

lemma serialize_slot_plain: "serialize_slot (plain_slot x) = serialize_slot x"
  by (cases x) (simp_all add: serialize_slot_def)

lemma serialize_plain: "serialize xhtml (plain n) = serialize xhtml n"
  by (induction n rule: plain.induct) (simp add: serialize_slot_plain cong: map_cong)

text \<open>
  C2: a tree all of whose strings are flagged atomic is left as it is by the inline
  processor, whatever the processors and at any depth; in any tree, an atomic text or
  tail of an element is still its text or tail afterwards, and an atomic tail makes no
  new elements; the serializer writes an atomic string as it writes the plain string of
  the same characters, escaped as text.
\<close>

theorem atomic_strings_untouched:
  "(all_atomic n \<longrightarrow> run_inline fuel procs ancestors n = [n]) \<and>
   (atomic_slot (n_text n) \<longrightarrow> n_text (hd (run_inline fuel procs ancestors n)) = n_text n) \<and>
   (atomic_slot (n_tail n) \<longrightarrow>
      n_tail (hd (run_inline fuel procs ancestors n)) = n_tail n \<and>
      length (run_inline fuel procs ancestors n) = 1) \<and>
   serialize xhtml n = serialize xhtml (plain n) \<and>
   serialize_slot (Some (AtomicString s)) = escape_text s"
proof -
  obtain t a x c l where n: "n = Node t a x c l" by (cases n)
  from run_inline_shape [of fuel procs ancestors t a x c l]
  have "(atomic_slot (n_text n) \<longrightarrow> n_text (hd (run_inline fuel procs ancestors n)) = n_text n) \<and>
   (atomic_slot (n_tail n) \<longrightarrow>
      n_tail (hd (run_inline fuel procs ancestors n)) = n_tail n \<and>
      length (run_inline fuel procs ancestors n) = 1)"
    unfolding n by auto
  then show ?thesis
    using run_inline_all_atomic [of n fuel procs ancestors] serialize_plain [of xhtml n]
    by (simp add: serialize_slot_def)
qed

theorem atomic_strings_untouched_witness:
  "all_atomic ex_atomic \<and> run_inline 5 [AncestorExample] [] ex_atomic = [ex_atomic] \<and>
   run_inline 5 [AncestorExample] [] (plain ex_atomic) \<noteq> [plain ex_atomic] \<and>
   serialize True ex_atomic =
     ''<div><p>*some* +x+ <span>+more+ &lt;b&gt; </span> +with+</p></div>''"
proof -
  have a: "all_atomic ex_atomic" by (simp add: ex_atomic_def)
  have b: "run_inline 5 [AncestorExample] [] (plain ex_atomic) \<noteq> [plain ex_atomic]"
    by code_simp
  have c: "serialize True (plain ex_atomic) =
     ''<div><p>*some* +x+ <span>+more+ &lt;b&gt; </span> +with+</p></div>''"
    by code_simp
  from atomic_strings_untouched [of ex_atomic 5 "[AncestorExample]" "[]" True "[]"] a b c
  show ?thesis by simp
qed

lemma excluded_append: "excluded p ancestors \<Longrightarrow> excluded p (ancestors @ ts)"
  by (simp add: excluded_def)

lemma earliest_drop_excluded:
  "excluded p ancestors \<Longrightarrow>
   earliest (ps @ p # qs) ancestors data = earliest (ps @ qs) ancestors data"
  by (induction ps) (simp_all split: option.splits)

lemma expand_drop_excluded:
  assumes "excluded p ancestors"
  shows "expand (ps @ p # qs) ancestors data = expand (ps @ qs) ancestors data"
proof (induction data rule: length_induct)
  case (1 data)
  have IH: "expand (ps @ p # qs) ancestors d = expand (ps @ qs) ancestors d"
    if "length d < length data" for d
    using 1 that by blast
  show ?case
    unfolding expand.simps [of "ps @ p # qs" ancestors data]
      expand.simps [of "ps @ qs" ancestors data]
      earliest_drop_excluded [OF assms]
    by (auto split: option.splits simp: IH)
qed

lemma expand_slot_drop_excluded:
  "excluded p ancestors \<Longrightarrow>
   expand_slot (ps @ p # qs) ancestors x = expand_slot (ps @ qs) ancestors x"
  by (cases "(ps @ qs, ancestors, x)" rule: expand_slot.cases)
     (simp_all add: expand_drop_excluded)

lemma run_inline_drop_excluded:
  "excluded p ancestors \<Longrightarrow>
   run_inline fuel (ps @ p # qs) ancestors n = run_inline fuel (ps @ qs) ancestors n"
proof (induction fuel arbitrary: n ancestors)
  case 0
  then show ?case by simp
next
  case (Suc fuel)
  obtain t a x c l where n: "n = Node t a x c l" by (cases n)
  from Suc.prems have ex': "excluded p (ancestors @ [t])" by (rule excluded_append)
  have f1: "run_inline fuel (ps @ p # qs) ancestors = run_inline fuel (ps @ qs) ancestors"
    by (rule ext) (rule Suc.IH [OF Suc.prems])
  have f2: "run_inline fuel (ps @ p # qs) (ancestors @ [t]) =
            run_inline fuel (ps @ qs) (ancestors @ [t])"
    by (rule ext) (rule Suc.IH [OF ex'])
  show ?case
    by (simp add: n expand_slot_drop_excluded [OF Suc.prems] expand_slot_drop_excluded [OF ex']
        f1 f2)
qed

lemma expand_no_processors: "expand [] ancestors data = [PText data]"
  by (simp add: expand.simps [of "[]" ancestors data])

lemma run_inline_no_processors: "run_inline fuel [] ancestors n = [n]"
proof (induction fuel arbitrary: n ancestors)
  case 0
  then show ?case by simp
next
  case (Suc fuel)
  obtain t a x c l where n: "n = Node t a x c l" by (cases n)
  have sl: "expand_slot [] anc y = (y, [])" for anc y
    by (cases "([] :: inline_processor list, anc, y)" rule: expand_slot.cases)
       (simp_all add: expand_no_processors)
  have "concat (map (run_inline fuel [] (ancestors @ [t])) c) = c"
    by (rule concat_map_singleton) (simp add: Suc.IH)
  then show ?case by (simp add: n sl)
qed

lemma plus_search_from_Some:
  "plus_search_from i cs = Some (s, e) \<Longrightarrow>
     \<exists>pre inner post. cs = pre @ ''+'' @ inner @ ''+'' @ post \<and> inner \<noteq> [] \<and>
        CHR ''+'' \<notin> set inner \<and> s = i + length pre \<and> e = s + length inner + 2"
proof (induction i cs rule: plus_search_from.induct)
  case (1 i)
  then show ?case by simp
next
  case (2 i c cs)
  let ?inner = "takeWhile (\<lambda>x. x \<noteq> CHR ''+'') cs"
  let ?rest = "dropWhile (\<lambda>x. x \<noteq> CHR ''+'') cs"
  show ?case
  proof (cases "c = CHR ''+'' \<and> ?inner \<noteq> [] \<and> ?rest \<noteq> []")
    case True
    with "2.prems" have s: "s = i" and e: "e = i + length ?inner + 2" by simp_all
    from True have "hd ?rest = CHR ''+''"
      using hd_dropWhile [of "\<lambda>x. x \<noteq> CHR ''+''" cs] by simp
    with True have rest: "?rest = CHR ''+'' # tl ?rest" by (cases ?rest) simp_all
    have "cs = ?inner @ ?rest" by simp
    with rest have cs: "cs = ?inner @ ''+'' @ tl ?rest" by simp
    have no: "CHR ''+'' \<notin> set ?inner" by (auto dest: set_takeWhileD)
    from True cs have "c # cs = [] @ ''+'' @ ?inner @ ''+'' @ tl ?rest" by simp
    with True no s e show ?thesis by (metis add.right_neutral list.size(3))
  next
    case False
    with "2.prems" have rec: "plus_search_from (i + 1) cs = Some (s, e)" by auto
    from "2.IH" [OF False rec] obtain pre inner post where
      ih: "cs = pre @ ''+'' @ inner @ ''+'' @ post" "inner \<noteq> []" "CHR ''+'' \<notin> set inner"
      "s = i + 1 + length pre" "e = s + length inner + 2"
      by blast
    from ih(1) have "c # cs = (c # pre) @ ''+'' @ inner @ ''+'' @ post" by simp
    moreover from ih(4) have "s = i + length (c # pre)" by simp
    ultimately show ?thesis using ih(2,3,5) by blast
  qed
qed

lemma excluded_AncestorExample: "excluded AncestorExample ancestors \<longleftrightarrow> ''a'' \<in> set ancestors"
  by (auto simp: excluded_def AncestorExample_def list_ex_iff)

lemma expand_excluded_only:
  "excluded p ancestors \<Longrightarrow> expand [p] ancestors data = [PText data]"
  using expand_drop_excluded [of p ancestors "[]" "[]" data] by (simp add: expand_no_processors)

lemma run_inline_excluded_only:
  "excluded p ancestors \<Longrightarrow> run_inline fuel [p] ancestors n = [n]"
  using run_inline_drop_excluded [of p ancestors fuel "[]" "[]" n]
  by (simp add: run_inline_no_processors)

lemma run_inline_link:
  "\<exists>l' sibs. run_inline fuel [AncestorExample] ancestors (Node ''a'' a x c l) =
     Node ''a'' a x c l' # sibs"
proof (cases fuel)
  case 0
  then show ?thesis by simp
next
  case (Suc f)
  have ex: "excluded AncestorExample (ancestors @ [''a''])"
    by (simp add: excluded_AncestorExample)
  have sl: "expand_slot [AncestorExample] (ancestors @ [''a'']) x = (x, [])"
    by (cases "([AncestorExample], ancestors @ [''a''], x)" rule: expand_slot.cases)
       (simp_all add: expand_excluded_only [OF ex])
  have "concat (map (run_inline f [AncestorExample] (ancestors @ [''a''])) c) = c"
    by (rule concat_map_singleton) (rule run_inline_excluded_only [OF ex])
  with sl Suc show ?thesis by (simp split: prod.splits)
qed

lemma plus_search_from_no_plus:
  "CHR ''+'' \<notin> set cs \<Longrightarrow> plus_search_from i cs = None"
  by (induction cs arbitrary: i) auto

lemma plus_search_from_lower: "plus_search_from i cs = Some (s, e) \<Longrightarrow> i \<le> s"
  using plus_search_from_Some [of i cs s e] by auto

lemma plus_search_from_prefix:
  "plus_search_from i cs = Some (s, e) \<Longrightarrow> plus_search_from j (take (s - i) cs) = None"
proof (induction i cs arbitrary: j rule: plus_search_from.induct)
  case (1 i)
  then show ?case by simp
next
  case (2 i c cs)
  let ?P = "\<lambda>x. x \<noteq> CHR ''+''"
  show ?case
  proof (cases "c = CHR ''+'' \<and> takeWhile ?P cs \<noteq> [] \<and> dropWhile ?P cs \<noteq> []")
    case True
    with "2.prems" have "s = i" by simp
    then show ?thesis by simp
  next
    case False
    with "2.prems" have rec: "plus_search_from (i + 1) cs = Some (s, e)" by auto
    from plus_search_from_lower [OF rec] have k: "s - i = Suc (s - (i + 1))" by simp
    let ?pre = "take (s - (i + 1)) cs"
    have tw: "takeWhile ?P cs \<noteq> []" if "takeWhile ?P ?pre \<noteq> []"
      using that by (cases cs; cases "s - (i + 1)") (auto split: if_splits)
    have dw: "dropWhile ?P cs \<noteq> []" if "dropWhile ?P ?pre \<noteq> []"
      using that by (auto simp: dropWhile_eq_Nil_conv dest: in_set_takeD)
    from False tw dw
    have nc: "\<not> (c = CHR ''+'' \<and> takeWhile ?P ?pre \<noteq> [] \<and> dropWhile ?P ?pre \<noteq> [])"
      by blast
    have "plus_search_from j (c # ?pre) = plus_search_from (j + 1) ?pre"
      using nc by auto
    also have "\<dots> = None" by (rule "2.IH" [OF False rec])
    finally show ?thesis by (simp only: k take_Suc_Cons)
  qed
qed

lemma expand_unmatched:
  "plus_search_from 0 data = None \<Longrightarrow> expand [AncestorExample] ancestors data = [PText data]"
  unfolding expand.simps [of "[AncestorExample]" ancestors data]
  by (simp add: AncestorExample_def)

lemma plus_search_from_span:
  assumes "plus_search_from 0 data = Some (s, e)"
  shows "s < e \<and> e \<le> length data \<and> slice data (s + 1) (e - 1) \<noteq> [] \<and>
     CHR ''+'' \<notin> set (slice data (s + 1) (e - 1))"
proof -
  from plus_search_from_Some [OF assms] obtain pre inner post where
    d: "data = pre @ ''+'' @ inner @ ''+'' @ post" and i: "inner \<noteq> []"
    and no: "CHR ''+'' \<notin> set inner" and s: "s = length pre" and e: "e = s + length inner + 2"
    by auto
  have "slice data (s + 1) (e - 1) = inner" unfolding d s e by (simp add: slice_def)
  with i no show ?thesis unfolding d s e by simp
qed

lemma expand_first_match:
  assumes na: "''a'' \<notin> set ancestors" and ps: "plus_search_from 0 data = Some (s, e)"
  shows "expand [AncestorExample] ancestors data =
     PText (take s data) #
     PNode (Node ''strong'' [] (Some (Str (slice data (s + 1) (e - 1)))) [] None) #
     expand [AncestorExample] ancestors (drop e data)"
proof -
  from na have nex: "\<not> excluded AncestorExample ancestors"
    by (simp add: excluded_AncestorExample)
  have se: "ip_search AncestorExample data = Some (s, e)"
    using ps by (simp add: AncestorExample_def)
  have ea: "earliest [AncestorExample] ancestors data = Some (s, e, AncestorExample)"
    using nex se by simp
  from plus_search_from_prefix [OF ps, of 0]
  have "plus_search_from 0 (take s data) = None" by simp
  then have pre: "expand [AncestorExample] ancestors (take s data) = [PText (take s data)]"
    by (rule expand_unmatched)
  show ?thesis
    unfolding expand.simps [of "[AncestorExample]" ancestors data] ea
    using plus_search_from_span [OF ps] pre by (simp add: AncestorExample_def)
qed

lemma expand_slot_first_match:
  assumes na: "''a'' \<notin> set ancestors" and ps: "plus_search_from 0 data = Some (s, e)"
  shows "\<exists>tl ns. expand_slot [AncestorExample] ancestors (Some (Str data)) =
     (Some (Str (take s data)),
      Node ''strong'' [] (Some (Str (slice data (s + 1) (e - 1)))) [] tl # ns)"
proof -
  obtain lead ns where
    as: "assemble (expand [AncestorExample] ancestors (drop e data)) = (lead, ns)"
    by (cases "assemble (expand [AncestorExample] ancestors (drop e data))")
  have "expand_slot [AncestorExample] ancestors (Some (Str data)) =
       (Some (Str (take s data)),
        Node ''strong'' [] (Some (Str (slice data (s + 1) (e - 1)))) []
          (if lead = [] then None else Some (Str lead)) # ns)"
    by (simp add: expand_first_match [OF na ps] as)
  then show ?thesis by blast
qed

lemma run_inline_unmatched_leaf:
  assumes "plus_search_from 0 u = None"
  shows "\<exists>l' sibs. run_inline fuel [AncestorExample] ancestors (Node t a (Some (Str u)) [] l) =
     Node t a (Some (Str u)) [] l' # sibs"
proof (cases fuel)
  case 0
  then show ?thesis by simp
next
  case (Suc f)
  have "expand_slot [AncestorExample] (ancestors @ [t]) (Some (Str u)) = (Some (Str u), [])"
    by (simp add: expand_unmatched [OF assms])
  with Suc show ?thesis by (simp split: prod.splits)
qed

lemma run_inline_text_fires:
  assumes na: "''a'' \<notin> set ancestors" and t: "t \<noteq> ''a''"
    and ps: "plus_search_from 0 data = Some (s, e)"
  shows "\<exists>tl kids l' sibs.
     run_inline (Suc fuel) [AncestorExample] ancestors (Node t a (Some (Str data)) c l) =
       Node t a (Some (Str (take s data)))
         (Node ''strong'' [] (Some (Str (slice data (s + 1) (e - 1)))) [] tl # kids) l' # sibs"
proof -
  define pre where "pre = take s data"
  define inner where "inner = slice data (s + 1) (e - 1)"
  from na t have na': "''a'' \<notin> set (ancestors @ [t])" by auto
  from expand_slot_first_match [OF na' ps] obtain tl0 ns where
    sl: "expand_slot [AncestorExample] (ancestors @ [t]) (Some (Str data)) =
       (Some (Str pre), Node ''strong'' [] (Some (Str inner)) [] tl0 # ns)"
    unfolding pre_def inner_def by blast
  from plus_search_from_span [OF ps]
  have "plus_search_from 0 inner = None"
    unfolding inner_def by (simp add: plus_search_from_no_plus)
  from run_inline_unmatched_leaf [OF this]
  obtain tl sibs0 where
    st: "run_inline fuel [AncestorExample] (ancestors @ [t])
       (Node ''strong'' [] (Some (Str inner)) [] tl0) =
       Node ''strong'' [] (Some (Str inner)) [] tl # sibs0"
    by blast
  have "\<exists>tl kids l' sibs.
     run_inline (Suc fuel) [AncestorExample] ancestors (Node t a (Some (Str data)) c l) =
       Node t a (Some (Str pre)) (Node ''strong'' [] (Some (Str inner)) [] tl # kids) l' # sibs"
    by (auto simp add: sl st simp del: expand_slot.simps split: prod.splits)
  then show ?thesis unfolding pre_def inner_def .
qed

lemma run_inline_tail_fires:
  assumes na: "''a'' \<notin> set ancestors" and ps: "plus_search_from 0 data = Some (s, e)"
  shows "\<exists>x' c' tl more.
     run_inline (Suc fuel) [AncestorExample] ancestors (Node t a x c (Some (Str data))) =
       Node t a x' c' (Some (Str (take s data))) #
       Node ''strong'' [] (Some (Str (slice data (s + 1) (e - 1)))) [] tl # more"
proof -
  define pre where "pre = take s data"
  define inner where "inner = slice data (s + 1) (e - 1)"
  from expand_slot_first_match [OF na ps] obtain tl0 ns where
    sl: "expand_slot [AncestorExample] ancestors (Some (Str data)) =
       (Some (Str pre), Node ''strong'' [] (Some (Str inner)) [] tl0 # ns)"
    unfolding pre_def inner_def by blast
  from plus_search_from_span [OF ps]
  have "plus_search_from 0 inner = None"
    unfolding inner_def by (simp add: plus_search_from_no_plus)
  from run_inline_unmatched_leaf [OF this]
  obtain tl sibs0 where
    st: "run_inline fuel [AncestorExample] ancestors
       (Node ''strong'' [] (Some (Str inner)) [] tl0) =
       Node ''strong'' [] (Some (Str inner)) [] tl # sibs0"
    by blast
  have "\<exists>x' c' tl more.
     run_inline (Suc fuel) [AncestorExample] ancestors (Node t a x c (Some (Str data))) =
       Node t a x' c' (Some (Str pre)) # Node ''strong'' [] (Some (Str inner)) [] tl # more"
    by (auto simp add: sl st simp del: expand_slot.simps split: prod.splits)
  then show ?thesis unfolding pre_def inner_def .
qed

text \<open>
  C8: for the processor of the test, with the pattern for \<open>+x+\<close>, the element
  \<open>strong\<close> and \<open>ANCESTOR_EXCLUDES\<close> holding \<open>a\<close>. Where an ancestor is an
  \<open>a\<close> element, the processor alone leaves a tree as it is, text and tails, and in
  any registry it counts for nothing; an \<open>a\<close> element keeps its text and children.
  Where no ancestor is an \<open>a\<close> element, the first match \<open>+inner+\<close> of the data is
  replaced by a \<open>strong\<close> element with the text \<open>inner\<close>, the text before it
  stays as it is and the text behind it is matched further. In the tree: an element
  other than \<open>a\<close> whose text is the data has afterwards the text before the match
  as its text and the \<open>strong\<close> element as its first child; an element of any tag,
  \<open>a\<close> too, whose tail is the data has afterwards the text before the match as its
  tail and the \<open>strong\<close> element as its next sibling, the tail being matched with
  the ancestors of the element and not inside it.
\<close>

theorem ancestor_exclusion:
  "(''a'' \<in> set ancestors \<longrightarrow>
      run_inline fuel [AncestorExample] ancestors n = [n] \<and>
      run_inline fuel (ps @ AncestorExample # qs) ancestors n =
        run_inline fuel (ps @ qs) ancestors n) \<and>
   (n_tag n = ''a'' \<longrightarrow>
      (\<exists>l' sibs. run_inline fuel [AncestorExample] ancestors n =
         Node ''a'' (n_attrib n) (n_text n) (n_children n) l' # sibs)) \<and>
   (''a'' \<notin> set ancestors \<and> plus_search_from 0 data = Some (s, e) \<longrightarrow>
      (\<exists>pre inner post.
         data = pre @ ''+'' @ inner @ ''+'' @ post \<and> inner \<noteq> [] \<and> CHR ''+'' \<notin> set inner \<and>
         s = length pre \<and> e = s + length inner + 2 \<and>
         expand [AncestorExample] ancestors data =
           expand [AncestorExample] ancestors pre @
           [PNode (Node ''strong'' [] (Some (Str inner)) [] None)] @
           expand [AncestorExample] ancestors post \<and>
         expand [AncestorExample] ancestors pre = [PText pre] \<and>
         (n_tag n \<noteq> ''a'' \<and> n_text n = Some (Str data) \<longrightarrow>
            (\<exists>tl kids l' sibs. run_inline (Suc fuel) [AncestorExample] ancestors n =
               Node (n_tag n) (n_attrib n) (Some (Str pre))
                 (Node ''strong'' [] (Some (Str inner)) [] tl # kids) l' # sibs)) \<and>
         (n_tail n = Some (Str data) \<longrightarrow>
            (\<exists>x' c' tl more. run_inline (Suc fuel) [AncestorExample] ancestors n =
               Node (n_tag n) (n_attrib n) x' c' (Some (Str pre)) #
               Node ''strong'' [] (Some (Str inner)) [] tl # more))))"
proof -
  have 1: "run_inline fuel [AncestorExample] ancestors n = [n] \<and>
      run_inline fuel (ps @ AncestorExample # qs) ancestors n =
        run_inline fuel (ps @ qs) ancestors n"
    if "''a'' \<in> set ancestors"
    using that run_inline_excluded_only run_inline_drop_excluded
    by (simp add: excluded_AncestorExample)
  have 2: "\<exists>l' sibs. run_inline fuel [AncestorExample] ancestors n =
         Node ''a'' (n_attrib n) (n_text n) (n_children n) l' # sibs"
    if "n_tag n = ''a''"
    using that run_inline_link [of fuel ancestors "n_attrib n" "n_text n" "n_children n" "n_tail n"]
    by (cases n) simp
  have 3: "\<exists>pre inner post.
         data = pre @ ''+'' @ inner @ ''+'' @ post \<and> inner \<noteq> [] \<and> CHR ''+'' \<notin> set inner \<and>
         s = length pre \<and> e = s + length inner + 2 \<and>
         expand [AncestorExample] ancestors data =
           expand [AncestorExample] ancestors pre @
           [PNode (Node ''strong'' [] (Some (Str inner)) [] None)] @
           expand [AncestorExample] ancestors post \<and>
         expand [AncestorExample] ancestors pre = [PText pre] \<and>
         (n_tag n \<noteq> ''a'' \<and> n_text n = Some (Str data) \<longrightarrow>
            (\<exists>tl kids l' sibs. run_inline (Suc fuel) [AncestorExample] ancestors n =
               Node (n_tag n) (n_attrib n) (Some (Str pre))
                 (Node ''strong'' [] (Some (Str inner)) [] tl # kids) l' # sibs)) \<and>
         (n_tail n = Some (Str data) \<longrightarrow>
            (\<exists>x' c' tl more. run_inline (Suc fuel) [AncestorExample] ancestors n =
               Node (n_tag n) (n_attrib n) x' c' (Some (Str pre)) #
               Node ''strong'' [] (Some (Str inner)) [] tl # more))"
    if na: "''a'' \<notin> set ancestors" and ps: "plus_search_from 0 data = Some (s, e)"
  proof -
    from plus_search_from_Some [OF ps] obtain pre inner post where
      d: "data = pre @ ''+'' @ inner @ ''+'' @ post" and i: "inner \<noteq> []"
      and no: "CHR ''+'' \<notin> set inner" and s: "s = length pre" and e: "e = s + length inner + 2"
      by auto
    have tk: "take s data = pre" "drop e data = post" "slice data (s + 1) (e - 1) = inner"
      unfolding d s e by (simp_all add: slice_def)
    from plus_search_from_prefix [OF ps, of 0] tk(1)
    have "plus_search_from 0 pre = None" by simp
    then have pre: "expand [AncestorExample] ancestors pre = [PText pre]"
      by (rule expand_unmatched)
    have ex: "expand [AncestorExample] ancestors data =
           expand [AncestorExample] ancestors pre @
           [PNode (Node ''strong'' [] (Some (Str inner)) [] None)] @
           expand [AncestorExample] ancestors post"
      using expand_first_match [OF na ps] unfolding tk by (simp add: pre)
    obtain t a x c l where n: "n = Node t a x c l" by (cases n)
    have tx: "\<exists>tl kids l' sibs. run_inline (Suc fuel) [AncestorExample] ancestors n =
               Node (n_tag n) (n_attrib n) (Some (Str pre))
                 (Node ''strong'' [] (Some (Str inner)) [] tl # kids) l' # sibs"
      if nt: "n_tag n \<noteq> ''a''" and nx: "n_text n = Some (Str data)"
    proof -
      from nt n have t: "t \<noteq> ''a''" by simp
      from nx n have x: "x = Some (Str data)" by simp
      have "\<exists>tl kids l' sibs.
          run_inline (Suc fuel) [AncestorExample] ancestors (Node t a (Some (Str data)) c l) =
            Node t a (Some (Str pre)) (Node ''strong'' [] (Some (Str inner)) [] tl # kids) l' #
            sibs"
        using run_inline_text_fires [OF na t ps, of fuel a c l] unfolding tk .
      then show ?thesis unfolding n x node.sel .
    qed
    have tl: "\<exists>x' c' tl more. run_inline (Suc fuel) [AncestorExample] ancestors n =
               Node (n_tag n) (n_attrib n) x' c' (Some (Str pre)) #
               Node ''strong'' [] (Some (Str inner)) [] tl # more"
      if nl: "n_tail n = Some (Str data)"
    proof -
      from nl n have l: "l = Some (Str data)" by simp
      have "\<exists>x' c' tl more.
          run_inline (Suc fuel) [AncestorExample] ancestors (Node t a x c (Some (Str data))) =
            Node t a x' c' (Some (Str pre)) # Node ''strong'' [] (Some (Str inner)) [] tl # more"
        using run_inline_tail_fires [OF na ps, of fuel t a x c] unfolding tk .
      then show ?thesis unfolding n l node.sel .
    qed
    from d i no s e ex pre tx tl show ?thesis by blast
  qed
  from 1 2 3 show ?thesis by blast
qed

theorem ancestor_exclusion_witness:
  "''a'' \<in> set [''p'', ''a'', ''strong''] \<and>
   run_inline 3 [AncestorExample] [''p'', ''a'', ''strong'']
     (Node ''em'' [] (Some (Str ''+em+'')) [] (Some (Str ''+strong+''))) =
     [Node ''em'' [] (Some (Str ''+em+'')) [] (Some (Str ''+strong+''))] \<and>
   ''a'' \<notin> set [''p''] \<and> plus_search_from 0 ''Some +test+ and a '' = Some (5, 11) \<and>
   expand [AncestorExample] [''p''] ''Some +test+ and a '' =
     [PText ''Some '', PNode (Node ''strong'' [] (Some (Str ''test'')) [] None),
      PText '' and a ''] \<and>
   n_tag ex_paragraph \<noteq> ''a'' \<and> n_text ex_paragraph = Some (Str ''Some +test+ and a '') \<and>
   n_text (hd (run_inline 5 [AncestorExample] [] ex_paragraph)) = Some (Str ''Some '') \<and>
   n_tag (hd (n_children (hd (run_inline 5 [AncestorExample] [] ex_paragraph)))) = ''strong'' \<and>
   run_inline 5 [AncestorExample] [] ex_paragraph = [ex_paragraph_out] \<and>
   run_inline 5 [AncestorExample] [] ex_link_tail = [ex_link_tail] \<and>
   plus_search_from 0 '' and +after+'' = Some (5, 12) \<and>
   n_tail (hd (n_children ex_link_followed)) = Some (Str '' and +after+'') \<and>
   n_tag (run_inline 4 [AncestorExample] [''p''] (hd (n_children ex_link_followed)) ! 1) =
     ''strong'' \<and>
   run_inline 5 [AncestorExample] [] ex_link_followed = [ex_link_followed_out]"
proof -
  have a: "''a'' \<in> set [''p'', ''a'', ''strong'']" "''a'' \<notin> set [''p'']"
    "''a'' \<notin> set ([] :: string list)" by simp_all
  have b: "plus_search_from 0 ''Some +test+ and a '' = Some (5, 11)"
    "plus_search_from 0 '' and +after+'' = Some (5, 12)" by simp_all
  have n: "n_tag ex_paragraph \<noteq> ''a''" "n_text ex_paragraph = Some (Str ''Some +test+ and a '')"
    "n_tail (hd (n_children ex_link_followed)) = Some (Str '' and +after+'')"
    by (simp_all add: ex_paragraph_def ex_link_followed_def)
  note T = ancestor_exclusion [of "[''p'', ''a'', ''strong'']" 3
      "Node ''em'' [] (Some (Str ''+em+'')) [] (Some (Str ''+strong+''))" "[]" "[]"]
  from T a have c: "run_inline 3 [AncestorExample] [''p'', ''a'', ''strong'']
     (Node ''em'' [] (Some (Str ''+em+'')) [] (Some (Str ''+strong+''))) =
     [Node ''em'' [] (Some (Str ''+em+'')) [] (Some (Str ''+strong+''))]" by blast
  have d: "expand [AncestorExample] [''p''] ''Some +test+ and a '' =
     [PText ''Some '', PNode (Node ''strong'' [] (Some (Str ''test'')) [] None),
      PText '' and a '']" by code_simp
  have e: "run_inline 5 [AncestorExample] [] ex_paragraph = [ex_paragraph_out]" by code_simp
  have f: "run_inline 5 [AncestorExample] [] ex_link_tail = [ex_link_tail]" by code_simp
  have g: "run_inline 5 [AncestorExample] [] ex_link_followed = [ex_link_followed_out]"
    by code_simp
  from ancestor_exclusion [of "[]" 4 ex_paragraph "[]" "[]" "''Some +test+ and a ''" 5 11]
    a(3) b(1) n(1,2)
  obtain pre inner post tl kids l' sibs where
    h: "''Some +test+ and a '' = pre @ ''+'' @ inner @ ''+'' @ post" "5 = length pre"
      "run_inline (Suc 4) [AncestorExample] [] ex_paragraph =
         Node (n_tag ex_paragraph) (n_attrib ex_paragraph) (Some (Str pre))
           (Node ''strong'' [] (Some (Str inner)) [] tl # kids) l' # sibs"
    by blast
  from h(1,2) have "pre = take 5 ''Some +test+ and a ''" by simp
  then have pre: "pre = ''Some ''" by simp
  have five: "Suc 4 = 5" by simp
  from h(3) have
    i: "n_text (hd (run_inline 5 [AncestorExample] [] ex_paragraph)) = Some (Str ''Some '')"
      "n_tag (hd (n_children (hd (run_inline 5 [AncestorExample] [] ex_paragraph)))) = ''strong''"
    unfolding five pre by simp_all
  from ancestor_exclusion [of "[''p'']" 3 "hd (n_children ex_link_followed)" "[]" "[]"
      "'' and +after+''" 5 12] a(2) b(2) n(3)
  obtain pre2 inner2 x' c' tl2 more where
    "run_inline (Suc 3) [AncestorExample] [''p''] (hd (n_children ex_link_followed)) =
       Node (n_tag (hd (n_children ex_link_followed))) (n_attrib (hd (n_children ex_link_followed)))
         x' c' (Some (Str pre2)) # Node ''strong'' [] (Some (Str inner2)) [] tl2 # more"
    by blast
  moreover have "Suc 3 = 4" by simp
  ultimately have
    j: "n_tag (run_inline 4 [AncestorExample] [''p''] (hd (n_children ex_link_followed)) ! 1) =
     ''strong''"
    by simp
  from a b c d e f g i j n show ?thesis by simp
qed

end
